theory Spec2Isabelle
  imports Main
begin

section \<open>Data model of the rate limiter (rateLimiter.js)\<close>

text \<open>
  Timestamps are the integer milliseconds returned by \<open>Date.now()\<close>; counts and limits
  are JavaScript numbers that only ever hold integers here, so both are \<open>int\<close>.
  An Express request is reduced to the three properties the limiter reads
  (\<open>httpMethod\<close> is \<open>req.method\<close>). \<open>req.ip\<close> may be \<open>undefined\<close>, which is \<open>None\<close>.
\<close>

record request =
  ip :: "string option"
  path :: string
  httpMethod :: string

text \<open>The value stored per key in \<open>store.requests\<close>: \<open>{ count, firstRequest, requests }\<close>.\<close>

record window_record =
  count :: int
  firstRequest :: int
  requests :: "int list"

text \<open>The value stored per key in \<open>store.violations\<close>: \<open>{ count, timestamps }\<close>
  (\<open>violationCount\<close> is its \<open>count\<close>).\<close>

record violation_record =
  violationCount :: int
  timestamps :: "int list"

text \<open>The value stored per key in \<open>store.bans\<close>: \<open>{ timestamp, violations, expiresAt }\<close>.\<close>

record ban_record =
  timestamp :: int
  violations :: int
  expiresAt :: int

text \<open>
  The three stores are JavaScript \<open>Map\<close>s, which iterate in insertion order; the Janitor
  sorts the entries of \<open>store.requests\<close> with a stable sort, so the order is observable.
  Each store is therefore an association list in insertion order; \<open>requestStore\<close>,
  \<open>violationStore\<close> and \<open>banStore\<close> are \<open>store.requests\<close>, \<open>store.violations\<close> and
  \<open>store.bans\<close>.
\<close>

record store =
  requestStore :: "(string \<times> window_record) list"
  violationStore :: "(string \<times> violation_record) list"
  banStore :: "(string \<times> ban_record) list"

record autoBan_config =
  enabled :: bool
  maxViolations :: int
  banDurationMs :: int

text \<open>
  The options that the limiter reads, as the constructor leaves them in \<open>this.config\<close>
  (the status code, the messages and the callbacks \<open>onBan\<close> and \<open>onRateLimit\<close> only shape
  the response and are left out). \<open>routeLimits\<close> and
  \<open>methodLimits\<close> are the entries of the configured objects in the order
  \<open>Object.entries\<close> enumerates them. \<open>customHandler\<close> says whether \<open>config.handler\<close> is
  set. The constructor replaces a falsy \<open>windowMs\<close>, \<open>maxRequests\<close> or \<open>maxStoreSize\<close>
  (so also 0) by its default.
\<close>

record config =
  windowMs :: int
  maxRequests :: int
  windowType :: string
  headers :: bool
  skipSuccessfulRequests :: bool
  skipFailedRequests :: bool
  skipOptions :: bool
  routeLimits :: "(string \<times> int) list"
  methodLimits :: "(string \<times> int) list"
  whitelist :: "string list"
  blacklist :: "string list"
  autoBan :: autoBan_config
  maxStoreSize :: int
  keyGenerator :: "request \<Rightarrow> string option"
  skip :: "request \<Rightarrow> bool"
  customHandler :: bool

text \<open>
  Every call of \<open>Date.now()\<close> made while one request is processed is a reading of its
  own; the readings are passed in, one field per call site on the path of the middleware.
\<close>

record ticks =
  t_banCheck :: int     \<comment> \<open>\<open>isIPBanned\<close> called by the middleware\<close>
  t_admit :: int        \<comment> \<open>\<open>now\<close> of \<open>isRateLimited\<close>\<close>
  t_violation :: int    \<comment> \<open>the timestamp pushed by \<open>handleViolation\<close>\<close>
  t_banStamp :: int     \<comment> \<open>\<open>banData.timestamp\<close>\<close>
  t_banExpiry :: int    \<comment> \<open>the reading added to \<open>banDurationMs\<close> in \<open>banIP\<close>\<close>
  t_logInfo :: int      \<comment> \<open>\<open>isIPBanned\<close> inside \<open>getRateLimitInfo\<close>, logging branch\<close>
  t_logReset :: int     \<comment> \<open>\<open>resetTime\<close> fallback of that call\<close>
  t_headerInfo :: int   \<comment> \<open>\<open>isIPBanned\<close> inside \<open>getRateLimitInfo\<close>, \<open>handleRateLimit\<close>\<close>
  t_headerReset :: int  \<comment> \<open>\<open>resetTime\<close> fallback of that call\<close>

datatype error = SyntaxError

section \<open>JavaScript built-ins used by the limiter\<close>

text \<open>\<open>Map.prototype.get\<close>, \<open>set\<close> (an existing key keeps its position, a new one goes
  last) and \<open>delete\<close>.\<close>

definition js_get :: "('k \<times> 'v) list \<Rightarrow> 'k \<Rightarrow> 'v option" where
  "js_get m k = map_of m k"

fun js_set :: "('k \<times> 'v) list \<Rightarrow> 'k \<Rightarrow> 'v \<Rightarrow> ('k \<times> 'v) list" where
  "js_set [] k v = [(k, v)]"
| "js_set ((k', v') # m) k v = (if k' = k then (k, v) # m else (k', v') # js_set m k v)"

definition js_delete :: "('k \<times> 'v) list \<Rightarrow> 'k \<Rightarrow> ('k \<times> 'v) list" where
  "js_delete m k = filter (\<lambda>e. fst e \<noteq> k) m"

text \<open>\<open>Array.prototype.join(':')\<close>: an \<open>undefined\<close> element contributes the empty string.\<close>

fun js_str :: "string option \<Rightarrow> string" where
  "js_str None = []"
| "js_str (Some s) = s"

fun join_colon :: "string option list \<Rightarrow> string" where
  "join_colon [] = []"
| "join_colon [p] = js_str p"
| "join_colon (p # q # ps) = js_str p @ '':'' @ join_colon (q # ps)"

text \<open>\<open>Array.prototype.slice(0, e)\<close>: a negative end counts from the end of the array.\<close>

definition js_slice0 :: "'a list \<Rightarrow> int \<Rightarrow> 'a list" where
  "js_slice0 xs e = (if e < 0 then take (nat (int (length xs) + e)) xs else take (nat e) xs)"

section \<open>The rate limiter\<close>

definition defaultKeyGenerator :: "request \<Rightarrow> string option" where
  "defaultKeyGenerator req = ip req"

definition generateKey :: "config \<Rightarrow> request \<Rightarrow> string" where
  "generateKey cfg req =
     (let baseKey = keyGenerator cfg req;
          parts = [baseKey]
                  @ (if routeLimits cfg \<noteq> [] then [Some (path req)] else [])
                  @ (if methodLimits cfg \<noteq> [] then [Some (httpMethod req)] else [])
      in join_colon parts)"

text \<open>
  \<open>new RegExp(pattern).test(path)\<close> is the parameter \<open>rx\<close>: \<open>rx pattern path\<close> is \<open>None\<close>
  when the pattern does not compile (the constructor throws a SyntaxError), otherwise the
  result of the test. The loop returns at the first pattern that matches.
\<close>

fun routeLimitLoop ::
  "(string \<Rightarrow> string \<Rightarrow> bool option) \<Rightarrow> (string \<times> int) list \<Rightarrow> string \<Rightarrow> int \<Rightarrow> error + int" where
  "routeLimitLoop rx [] p dflt = Inr dflt"
| "routeLimitLoop rx ((pattern, limit) # es) p dflt =
     (case rx pattern p of
        None \<Rightarrow> Inl SyntaxError
      | Some True \<Rightarrow> Inr limit
      | Some False \<Rightarrow> routeLimitLoop rx es p dflt)"

definition getRouteLimit ::
  "(string \<Rightarrow> string \<Rightarrow> bool option) \<Rightarrow> config \<Rightarrow> string \<Rightarrow> error + int" where
  "getRouteLimit rx cfg p = routeLimitLoop rx (routeLimits cfg) p (maxRequests cfg)"

text \<open>\<open>methodLimits[method] || maxRequests\<close>: a configured limit of 0 is falsy.\<close>

definition getMethodLimit :: "config \<Rightarrow> string \<Rightarrow> int" where
  "getMethodLimit cfg m =
     (case map_of (methodLimits cfg) m of
        None \<Rightarrow> maxRequests cfg
      | Some l \<Rightarrow> if l = 0 then maxRequests cfg else l)"

definition banIP :: "config \<Rightarrow> string \<Rightarrow> ticks \<Rightarrow> store \<Rightarrow> store" where
  "banIP cfg key tk st =
     (let banData = \<lparr> timestamp = t_banStamp tk,
                       violations = (case js_get (violationStore st) key of
                                       None \<Rightarrow> 0 | Some v \<Rightarrow> violationCount v),
                       expiresAt = t_banExpiry tk + banDurationMs (autoBan cfg) \<rparr>
      in st\<lparr>banStore := js_set (banStore st) key banData\<rparr>)"

definition handleViolation :: "config \<Rightarrow> string \<Rightarrow> ticks \<Rightarrow> store \<Rightarrow> store" where
  "handleViolation cfg key tk st =
     (let v0 = (case js_get (violationStore st) key of
                  None \<Rightarrow> \<lparr> violationCount = 0, timestamps = [] \<rparr> | Some v \<Rightarrow> v);
          v1 = v0\<lparr> violationCount := violationCount v0 + 1,
                   timestamps := timestamps v0 @ [t_violation tk] \<rparr>;
          st1 = st\<lparr>violationStore := js_set (violationStore st) key v1\<rparr>
      in if enabled (autoBan cfg) \<and> violationCount v1 \<ge> maxViolations (autoBan cfg)
         then banIP cfg key tk st1 else st1)"

text \<open>
  The limit applied to a request (lines 88--91 of \<open>isRateLimited\<close>):
  \<open>Math.min(getRouteLimit(req.path), getMethodLimit(req.method))\<close>.
\<close>

definition effectiveLimit ::
  "(string \<Rightarrow> string \<Rightarrow> bool option) \<Rightarrow> config \<Rightarrow> request \<Rightarrow> error + int" where
  "effectiveLimit rx cfg req =
     (case getRouteLimit rx cfg (path req) of
        Inl e \<Rightarrow> Inl e
      | Inr routeLimit \<Rightarrow>
          (let methodLimit = getMethodLimit cfg (httpMethod req)
           in Inr (min routeLimit methodLimit)))"

text \<open>
  \<open>isRateLimited\<close>. The limit is computed before the store is written, so a pattern
  that does not compile leaves the store as it was. \<open>Math.floor(now / windowMs)\<close> is
  \<open>now div windowMs\<close> (\<open>windowMs\<close> is never 0 after the constructor).
\<close>

definition isRateLimited ::
  "(string \<Rightarrow> string \<Rightarrow> bool option) \<Rightarrow> config \<Rightarrow> string \<Rightarrow> request \<Rightarrow> ticks \<Rightarrow> store
     \<Rightarrow> error + (bool \<times> store)" where
  "isRateLimited rx cfg key req tk st =
     (let now = t_admit tk;
          data = (case js_get (requestStore st) key of
                    None \<Rightarrow> \<lparr> count = 0, firstRequest = now, requests = [] \<rparr> | Some d \<Rightarrow> d)
      in case effectiveLimit rx cfg req of
           Inl e \<Rightarrow> Inl e
         | Inr limit \<Rightarrow>
            (let data1 = (if windowType cfg = ''sliding'' then
                            (let kept = filter (\<lambda>time. now - time < windowMs cfg) (requests data)
                             in data\<lparr> requests := kept, count := int (length kept) \<rparr>)
                          else
                            (let windowStart = (now div windowMs cfg) * windowMs cfg
                             in if firstRequest data < windowStart
                                then data\<lparr> count := 0, firstRequest := now, requests := [] \<rparr>
                                else data));
                 data2 = data1\<lparr> requests := requests data1 @ [now], count := count data1 + 1 \<rparr>;
                 st1 = st\<lparr>requestStore := js_set (requestStore st) key data2\<rparr>
             in if count data2 > limit
                then Inr (True, handleViolation cfg key tk st1)
                else Inr (False, st1)))"

definition isIPBanned :: "string \<Rightarrow> int \<Rightarrow> store \<Rightarrow> bool \<times> store" where
  "isIPBanned key now st =
     (case js_get (banStore st) key of
        None \<Rightarrow> (False, st)
      | Some ban \<Rightarrow>
          if now > expiresAt ban
          then (False, st\<lparr>banStore := js_delete (banStore st) key\<rparr>)
          else (True, st))"

text \<open>
  \<open>getRateLimitInfo\<close> reads the three stores and calls \<open>isIPBanned\<close>, which may delete an
  expired ban; \<open>banExpiry\<close> is read before that call.
\<close>

record rateLimitInfo =
  info_requests :: int
  info_remaining :: int
  info_violations :: int
  info_banned :: bool
  info_banExpiry :: "int option"
  info_resetTime :: int

definition getRateLimitInfo ::
  "config \<Rightarrow> string \<Rightarrow> int \<Rightarrow> int \<Rightarrow> store \<Rightarrow> rateLimitInfo \<times> store" where
  "getRateLimitInfo cfg key now nowReset st =
     (let data = js_get (requestStore st) key;
          viol = js_get (violationStore st) key;
          ban = js_get (banStore st) key;
          cnt = (case data of None \<Rightarrow> 0 | Some d \<Rightarrow> count d);
          res = isIPBanned key now st
      in (\<lparr> info_requests = cnt,
            info_remaining = max 0 (maxRequests cfg - cnt),
            info_violations = (case viol of None \<Rightarrow> 0 | Some v \<Rightarrow> violationCount v),
            info_banned = fst res,
            info_banExpiry = map_option expiresAt ban,
            info_resetTime = (case data of None \<Rightarrow> nowReset
                              | Some d \<Rightarrow> firstRequest d + windowMs cfg) \<rparr>,
          snd res))"

subsection \<open>The Janitor: the body of the interval callback of \<open>startCleanup\<close>\<close>

text \<open>
  Deleting from a \<open>Map\<close> while iterating over it visits every remaining entry, and each
  entry is judged on its own, so the three loops are filters. \<open>Array.prototype.sort\<close> is
  stable, as \<open>sort_key\<close> is. \<open>Math.floor(maxStoreSize * 0.2)\<close> is \<open>maxStoreSize div 5\<close> for
  every integer of magnitude below \<open>2^50\<close>: the double nearest to 0.2 exceeds it by the
  factor \<open>1 + 2^-54\<close>, less than half a unit in the last place of any such product.
\<close>

definition cleanupRequests :: "config \<Rightarrow> int \<Rightarrow> (string \<times> window_record) list
    \<Rightarrow> (string \<times> window_record) list" where
  "cleanupRequests cfg now rs =
     filter (\<lambda>e. \<not> (now - firstRequest (snd e) > windowMs cfg)) rs"

definition cleanupBans :: "int \<Rightarrow> (string \<times> ban_record) list \<Rightarrow> (string \<times> ban_record) list" where
  "cleanupBans now bs = filter (\<lambda>e. \<not> (now > expiresAt (snd e))) bs"

fun cleanupViolations :: "config \<Rightarrow> int \<Rightarrow> (string \<times> violation_record) list
    \<Rightarrow> (string \<times> violation_record) list" where
  "cleanupViolations cfg now [] = []"
| "cleanupViolations cfg now ((key, v) # vs) =
     (let ts = filter (\<lambda>time. now - time < windowMs cfg * 2) (timestamps v)
      in if length ts = 0 then cleanupViolations cfg now vs
         else (key, v\<lparr> timestamps := ts, violationCount := int (length ts) \<rparr>)
              # cleanupViolations cfg now vs)"

definition entriesToDelete :: "config \<Rightarrow> (string \<times> window_record) list \<Rightarrow> string list" where
  "entriesToDelete cfg rs =
     map fst (js_slice0 (sort_key (\<lambda>e. firstRequest (snd e)) rs) (maxStoreSize cfg div 5))"

definition evictOldest :: "config \<Rightarrow> (string \<times> window_record) list
    \<Rightarrow> (string \<times> window_record) list" where
  "evictOldest cfg rs =
     (if int (length rs) > maxStoreSize cfg
      then foldl js_delete rs (entriesToDelete cfg rs)
      else rs)"

definition cleanup :: "config \<Rightarrow> int \<Rightarrow> store \<Rightarrow> store" where
  "cleanup cfg now st =
     (let rs = cleanupRequests cfg now (requestStore st);
          bs = cleanupBans now (banStore st);
          vs = cleanupViolations cfg now (violationStore st)
      in \<lparr> requestStore = evictOldest cfg rs, violationStore = vs, banStore = bs \<rparr>)"

subsection \<open>The middleware\<close>

text \<open>
  The outcome of the middleware: \<open>next()\<close> is \<open>Allow\<close>; \<open>handleRateLimit\<close> called without
  and with \<open>isBanned\<close> is \<open>RateLimited\<close> and \<open>Banned\<close>; \<open>Threw\<close> is an exception leaving the
  middleware. Sending the response, the custom handler and the logger are outside the
  limiter; what they leave in the store is the lazy deletion done by \<open>getRateLimitInfo\<close>.
  \<open>logOn\<close> is \<open>logger?.config.enabled.rateLimit\<close>.
\<close>

datatype outcome = Allow | RateLimited | Banned | Threw error

definition handleRateLimit :: "config \<Rightarrow> string \<Rightarrow> ticks \<Rightarrow> store \<Rightarrow> store" where
  "handleRateLimit cfg key tk st =
     (if customHandler cfg then st
      else if headers cfg
           then snd (getRateLimitInfo cfg key (t_headerInfo tk) (t_headerReset tk) st)
           else st)"

definition middleware ::
  "(string \<Rightarrow> string \<Rightarrow> bool option) \<Rightarrow> config \<Rightarrow> bool \<Rightarrow> request \<Rightarrow> ticks \<Rightarrow> store
     \<Rightarrow> outcome \<times> store" where
  "middleware rx cfg logOn req tk st =
     (if skip cfg req then (Allow, st)
      else if skipOptions cfg \<and> httpMethod req = ''OPTIONS'' then (Allow, st)
      else
        (let key = generateKey cfg req
         in if key \<in> set (whitelist cfg) then (Allow, st)
            else if key \<in> set (blacklist cfg)
                 then (RateLimited, handleRateLimit cfg key tk st)
            else
              (case isIPBanned key (t_banCheck tk) st of
                 (True, st1) \<Rightarrow> (Banned, handleRateLimit cfg key tk st1)
               | (False, st1) \<Rightarrow>
                   (case isRateLimited rx cfg key req tk st1 of
                      Inl e \<Rightarrow> (Threw e, st1)
                    | Inr (True, st2) \<Rightarrow>
                        (let st3 = (if logOn
                                    then snd (getRateLimitInfo cfg key (t_logInfo tk)
                                                (t_logReset tk) st2)
                                    else st2)
                         in (RateLimited, handleRateLimit cfg key tk st3))
                    | Inr (False, st2) \<Rightarrow> (Allow, st2)))))"

text \<open>
  The \<open>finish\<close> listener registered for an allowed request: the compensating decrement.
  \<open>pop\<close> on an empty array does nothing.
\<close>

definition onFinish :: "config \<Rightarrow> string \<Rightarrow> int \<Rightarrow> store \<Rightarrow> store" where
  "onFinish cfg key statusCode st =
     (if (if statusCode < 400 then skipSuccessfulRequests cfg else skipFailedRequests cfg)
      then (case js_get (requestStore st) key of
              None \<Rightarrow> st
            | Some data \<Rightarrow>
                st\<lparr>requestStore := js_set (requestStore st) key
                      (data\<lparr> count := count data - 1, requests := butlast (requests data) \<rparr>)\<rparr>)
      else st)"

subsection \<open>The configuration built by the constructor from \<open>{}\<close>\<close>

definition defaultSkip :: "request \<Rightarrow> bool" where
  "defaultSkip req = False"

definition defaultConfig :: config where
  "defaultConfig =
     \<lparr> windowMs = 60000, maxRequests = 100, windowType = ''sliding'', headers = True,
       skipSuccessfulRequests = False, skipFailedRequests = False, skipOptions = False,
       routeLimits = [], methodLimits = [], whitelist = [], blacklist = [],
       autoBan = \<lparr> enabled = False, maxViolations = 5, banDurationMs = 86400000 \<rparr>,
       maxStoreSize = 10000, keyGenerator = defaultKeyGenerator, skip = defaultSkip,
       customHandler = False \<rparr>"

definition emptyStore :: store where
  "emptyStore = \<lparr> requestStore = [], violationStore = [], banStore = [] \<rparr>"

text \<open>All the clock readings of one request equal to \<open>t\<close>.\<close>

definition allAt :: "int \<Rightarrow> ticks" where
  "allAt t = \<lparr> t_banCheck = t, t_admit = t, t_violation = t, t_banStamp = t,
               t_banExpiry = t, t_logInfo = t, t_logReset = t, t_headerInfo = t,
               t_headerReset = t \<rparr>"

text \<open>
  \<open>RegExp.prototype.test\<close> for a pattern made only of characters without a special
  meaning in a regular expression (letters, digits, \<open>/\<close>): such a pattern always
  compiles, and the test succeeds exactly when the pattern occurs in the string.
\<close>

fun startsWith :: "string \<Rightarrow> string \<Rightarrow> bool" where
  "startsWith [] s = True"
| "startsWith (c # p) [] = False"
| "startsWith (c # p) (d # s) = (c = d \<and> startsWith p s)"

fun occursIn :: "string \<Rightarrow> string \<Rightarrow> bool" where
  "occursIn p [] = (p = [])"
| "occursIn p (d # s) = (startsWith p (d # s) \<or> occursIn p s)"

definition literalRegExp :: "string \<Rightarrow> string \<Rightarrow> bool option" where
  "literalRegExp pattern s = Some (occursIn pattern s)"

section \<open>WebSocket admission (websocketSupport.js)\<close>

text \<open>
  The part of the configuration and of the state that the admission checks use. A rate
  limiter entry is \<open>{ count, resetTime }\<close> (\<open>limiterCount\<close> is its \<open>count\<close>);
  \<open>connections\<close> and \<open>rateLimiters\<close> are \<open>Map\<close>s. The fields of \<open>stats\<close> are fields of
  the state.
\<close>

record ws_rateLimiting =
  ws_enabled :: bool
  maxConnectionsPerIP :: int
  ws_windowMs :: int
  maxMessages :: int

record ws_config =
  maxConnections :: int
  rateLimiting :: ws_rateLimiting
  authEnabled :: bool

record limiter =
  limiterCount :: int
  resetTime :: int

record connection =
  conn_ip :: string
  connectTime :: int
  lastPing :: int
  messageCount :: int
  bytesReceived :: int
  bytesSent :: int

record ws_state =
  connections :: "(string \<times> connection) list"
  rateLimiters :: "(string \<times> limiter) list"
  totalConnections :: int
  activeConnections :: int
  messagesReceived :: int
  bandwidthIn :: int
  errors :: int

text \<open>
  \<open>checkRateLimit\<close>: a limiter with count 0 is created for an address that has none (the
  timer that deletes it after \<open>windowMs\<close> is \<open>limiterTimeout\<close>), and the count is compared
  with \<open>maxConnectionsPerIP\<close>. Nothing here increments the count.
\<close>

definition checkRateLimit :: "ws_config \<Rightarrow> string \<Rightarrow> int \<Rightarrow> ws_state \<Rightarrow> bool \<times> ws_state" where
  "checkRateLimit wcfg addr now st =
     (case js_get (rateLimiters st) addr of
        None \<Rightarrow>
          (let fresh = \<lparr> limiterCount = 0, resetTime = now + ws_windowMs (rateLimiting wcfg) \<rparr>
           in (limiterCount fresh \<ge> maxConnectionsPerIP (rateLimiting wcfg),
               st\<lparr>rateLimiters := js_set (rateLimiters st) addr fresh\<rparr>))
      | Some lim \<Rightarrow> (limiterCount lim \<ge> maxConnectionsPerIP (rateLimiting wcfg), st))"

definition limiterTimeout :: "string \<Rightarrow> ws_state \<Rightarrow> ws_state" where
  "limiterTimeout addr st = st\<lparr>rateLimiters := js_delete (rateLimiters st) addr\<rparr>"

text \<open>
  The \<open>connection\<close> handler of \<open>setupServer\<close> with \<open>setupConnection\<close>. The connection id,
  the clock readings and the outcome of the authentication handler (\<open>authOk\<close>) are
  passed in. A rejected connection is closed with code 4000 and the message of the error.
\<close>

datatype ws_result = Accepted | Closed string

definition setupConnection :: "string \<Rightarrow> string \<Rightarrow> int \<Rightarrow> int \<Rightarrow> ws_state \<Rightarrow> ws_state" where
  "setupConnection connectionId addr tConnect tPing st =
     st\<lparr>connections := js_set (connections st) connectionId
           \<lparr> conn_ip = addr, connectTime = tConnect, lastPing = tPing, messageCount = 0,
             bytesReceived = 0, bytesSent = 0 \<rparr>\<rparr>"

definition onConnection ::
  "ws_config \<Rightarrow> string \<Rightarrow> string \<Rightarrow> bool \<Rightarrow> int \<Rightarrow> int \<Rightarrow> int \<Rightarrow> ws_state \<Rightarrow> ws_result \<times> ws_state" where
  "onConnection wcfg connectionId addr authOk now tConnect tPing st =
     (if activeConnections st \<ge> maxConnections wcfg then (Closed ''Max connections reached'', st)
      else
        (let checked = (if ws_enabled (rateLimiting wcfg) then checkRateLimit wcfg addr now st
                        else (False, st))
         in if fst checked then (Closed ''Rate limit exceeded'', snd checked)
            else if authEnabled wcfg \<and> \<not> authOk then (Closed ''Authentication failed'', snd checked)
            else
              (let st1 = setupConnection connectionId addr tConnect tPing (snd checked)
               in (Accepted, st1\<lparr> totalConnections := totalConnections st1 + 1,
                                  activeConnections := activeConnections st1 + 1 \<rparr>))))"

text \<open>
  \<open>handleMessage\<close> inside the \<open>message\<close> listener: the only place where the count of a
  limiter grows. The result is true when \<open>Message rate limit exceeded\<close> is thrown, which
  the listener hands to \<open>handleError\<close>.
\<close>

definition handleMessage :: "ws_config \<Rightarrow> string \<Rightarrow> int \<Rightarrow> ws_state \<Rightarrow> bool \<times> ws_state" where
  "handleMessage wcfg connectionId dataLength st =
     (case js_get (connections st) connectionId of
        None \<Rightarrow> (False, st)
      | Some conn \<Rightarrow>
          (let conn1 = conn\<lparr> messageCount := messageCount conn + 1,
                             bytesReceived := bytesReceived conn + dataLength \<rparr>;
               st1 = st\<lparr> connections := js_set (connections st) connectionId conn1,
                         messagesReceived := messagesReceived st + 1,
                         bandwidthIn := bandwidthIn st + dataLength \<rparr>
           in if ws_enabled (rateLimiting wcfg)
              then (case js_get (rateLimiters st1) (conn_ip conn1) of
                      None \<Rightarrow> (False, st1)
                    | Some lim \<Rightarrow>
                        (let lim1 = lim\<lparr> limiterCount := limiterCount lim + 1 \<rparr>;
                             st2 = st1\<lparr>rateLimiters := js_set (rateLimiters st1) (conn_ip conn1) lim1\<rparr>
                         in (limiterCount lim1 > maxMessages (rateLimiting wcfg), st2)))
              else (False, st1)))"

definition onMessage :: "ws_config \<Rightarrow> string \<Rightarrow> int \<Rightarrow> ws_state \<Rightarrow> ws_state" where
  "onMessage wcfg connectionId dataLength st =
     (let r = handleMessage wcfg connectionId dataLength st
      in if fst r then (snd r)\<lparr> errors := errors (snd r) + 1 \<rparr> else snd r)"

definition handleClose :: "string \<Rightarrow> ws_state \<Rightarrow> ws_state" where
  "handleClose connectionId st =
     (case js_get (connections st) connectionId of
        None \<Rightarrow> st
      | Some conn \<Rightarrow> st\<lparr> activeConnections := activeConnections st - 1,
                           connections := js_delete (connections st) connectionId \<rparr>)"

section \<open>Definitions for the statements, and scenarios\<close>

text \<open>The timestamps recorded for a key before a request (none when the key is new).\<close>

definition previousTimestamps :: "store \<Rightarrow> string \<Rightarrow> int list" where
  "previousTimestamps st key =
     (case js_get (requestStore st) key of None \<Rightarrow> [] | Some d \<Rightarrow> requests d)"

text \<open>A sliding window of one second with two requests allowed, and a client that has
  three timestamps on record.\<close>

definition slidingConfig :: config where
  "slidingConfig = defaultConfig\<lparr> windowMs := 1000, maxRequests := 2 \<rparr>"

definition clientK :: request where
  "clientK = \<lparr> ip = Some ''K'', path = ''/'', httpMethod = ''GET'' \<rparr>"

definition storeK :: store where
  "storeK = emptyStore\<lparr> requestStore :=
               [(''K'', \<lparr> count = 3, firstRequest = 0, requests = [0, 100, 200] \<rparr>)] \<rparr>"

text \<open>
  The effective limit as the specification words it: the minimum over the limits of all
  route patterns that match the path and the limit configured for the method; the global
  default when there is none.
\<close>

fun listMin :: "int \<Rightarrow> int list \<Rightarrow> int" where
  "listMin m [] = m"
| "listMin m (x # xs) = listMin (min m x) xs"

definition specEffectiveLimit ::
  "(string \<Rightarrow> string \<Rightarrow> bool option) \<Rightarrow> config \<Rightarrow> request \<Rightarrow> int" where
  "specEffectiveLimit rx cfg req =
     (let routeMatches = map snd (filter (\<lambda>e. rx (fst e) (path req) = Some True) (routeLimits cfg));
          methodMatch = (case map_of (methodLimits cfg) (httpMethod req) of
                           None \<Rightarrow> [] | Some l \<Rightarrow> [l])
      in case routeMatches @ methodMatch of
           [] \<Rightarrow> maxRequests cfg
         | l # ls \<Rightarrow> listMin l ls)"

text \<open>Three route patterns of which the last two match the path \<open>/api/users\<close>.\<close>

definition overlapConfig :: config where
  "overlapConfig =
     defaultConfig\<lparr> routeLimits := [(''/admin'', 5), (''/api'', 50), (''/api/users'', 20)] \<rparr>"

definition usersRequest :: request where
  "usersRequest = \<lparr> ip = Some ''10.0.0.7'', path = ''/api/users'', httpMethod = ''GET'' \<rparr>"

text \<open>The violation record of a key before a violation is recorded (the fresh record
  \<open>{ count: 0, timestamps: [] }\<close> when the key has none).\<close>

definition previousViolation :: "store \<Rightarrow> string \<Rightarrow> violation_record" where
  "previousViolation st key =
     (case js_get (violationStore st) key of
        None \<Rightarrow> \<lparr> violationCount = 0, timestamps = [] \<rparr> | Some v \<Rightarrow> v)"

text \<open>Auto-ban after two violations, for one minute; a key whose only violation is ten
  seconds old, five times \<open>2 * windowMs\<close>, and no sweep of the Janitor since.\<close>

definition banConfig :: config where
  "banConfig = slidingConfig\<lparr> autoBan := \<lparr> enabled = True, maxViolations = 2,
                                            banDurationMs = 60000 \<rparr> \<rparr>"

definition staleStore :: store where
  "staleStore = emptyStore\<lparr> violationStore :=
                  [(''K'', \<lparr> violationCount = 1, timestamps = [0] \<rparr>)] \<rparr>"

text \<open>A key with four violations on record.\<close>

definition fourStrikes :: store where
  "fourStrikes = emptyStore\<lparr> violationStore :=
                   [(''K'', \<lparr> violationCount = 4, timestamps = [100, 200, 300, 400] \<rparr>)] \<rparr>"

text \<open>A limiter that skips OPTIONS requests, and a client whose key is banned for a day.\<close>

definition optionsConfig :: config where
  "optionsConfig = defaultConfig\<lparr> skipOptions := True,
                      autoBan := \<lparr> enabled = True, maxViolations = 5, banDurationMs = 86400000 \<rparr> \<rparr>"

definition bannedStore :: store where
  "bannedStore = emptyStore\<lparr> banStore :=
                   [(''10.0.0.7'', \<lparr> timestamp = 0, violations = 5, expiresAt = 86400000 \<rparr>)] \<rparr>"

definition optionsRequest :: request where
  "optionsRequest = \<lparr> ip = Some ''10.0.0.7'', path = ''/'', httpMethod = ''OPTIONS'' \<rparr>"

definition getRequest :: request where
  "getRequest = \<lparr> ip = Some ''10.0.0.7'', path = ''/'', httpMethod = ''GET'' \<rparr>"

text \<open>A limiter with one route limit and no method limit; a request without a resolved
  identity; two requests that differ in the method only; and two requests whose identity
  and path contain the delimiter (\<open>req.ip\<close> is whatever Express derives for the client,
  under \<open>trust proxy\<close> from the \<open>X-Forwarded-For\<close> header).\<close>

definition routeConfig :: config where
  "routeConfig = defaultConfig\<lparr> routeLimits := [(''/api'', 50)] \<rparr>"

definition anonymousRequest :: request where
  "anonymousRequest = \<lparr> ip = None, path = ''/'', httpMethod = ''GET'' \<rparr>"

definition usersPost :: request where
  "usersPost = \<lparr> ip = Some ''10.0.0.7'', path = ''/api/users'', httpMethod = ''POST'' \<rparr>"

definition colonIdentityRequest :: request where
  "colonIdentityRequest = \<lparr> ip = Some ''a:/b'', path = ''/c'', httpMethod = ''GET'' \<rparr>"

definition colonPathRequest :: request where
  "colonPathRequest = \<lparr> ip = Some ''a'', path = ''/b:/c'', httpMethod = ''GET'' \<rparr>"



text \<open>
  The store after \<open>n\<close> clients have each made their first request, client \<open>i\<close> at time
  \<open>i\<close>: the records are the ones \<open>isRateLimited\<close> creates for a new key.
\<close>

definition freshKey :: "nat \<Rightarrow> string" where
  "freshKey i = ''client'' @ replicate i CHR ''+''"

definition freshEntry :: "nat \<Rightarrow> string \<times> window_record" where
  "freshEntry i = (freshKey i, \<lparr> count = 1, firstRequest = int i, requests = [int i] \<rparr>)"

definition freshStore :: "nat \<Rightarrow> store" where
  "freshStore n = emptyStore\<lparr> requestStore := map freshEntry [0..<n] \<rparr>"

definition capacity100 :: config where
  "capacity100 = defaultConfig\<lparr> maxStoreSize := 100 \<rparr>"

text \<open>A capacity of five and seven keys, first seen at different times; the second request
  of the key \<open>d\<close> was a violation.\<close>

definition capacity5 :: config where
  "capacity5 = defaultConfig\<lparr> maxStoreSize := 5, maxRequests := 1 \<rparr>"

definition sevenStore :: store where
  "sevenStore = emptyStore\<lparr> requestStore :=
     [(''a'', \<lparr> count = 1, firstRequest = 300, requests = [300] \<rparr>),
      (''b'', \<lparr> count = 1, firstRequest = 100, requests = [100] \<rparr>),
      (''c'', \<lparr> count = 1, firstRequest = 200, requests = [200] \<rparr>),
      (''d'', \<lparr> count = 2, firstRequest = 50, requests = [50, 650] \<rparr>),
      (''e'', \<lparr> count = 1, firstRequest = 400, requests = [400] \<rparr>),
      (''f'', \<lparr> count = 1, firstRequest = 600, requests = [600] \<rparr>),
      (''g'', \<lparr> count = 1, firstRequest = 500, requests = [500] \<rparr>)],
     violationStore := [(''d'', \<lparr> violationCount = 1, timestamps = [650] \<rparr>)] \<rparr>"

text \<open>A limiter that bans at the first violation, and its store after requests of the key
  \<open>K\<close> at the times 0, 100 and 200, the third of which was a violation.\<close>

definition strictConfig :: config where
  "strictConfig = slidingConfig\<lparr> autoBan := \<lparr> enabled = True, maxViolations = 1,
                                               banDurationMs = 60000 \<rparr> \<rparr>"

definition violatedStore :: store where
  "violatedStore =
     \<lparr> requestStore = [(''K'', \<lparr> count = 3, firstRequest = 0, requests = [0, 100, 200] \<rparr>)],
       violationStore = [(''K'', \<lparr> violationCount = 1, timestamps = [200] \<rparr>)],
       banStore = [(''K'', \<lparr> timestamp = 200, violations = 1, expiresAt = 60200 \<rparr>)] \<rparr>"

text \<open>The state of a new \<open>WebSocketSupport\<close>, and a configuration with the defaults of the
  constructor except for a cap of two connections per address.\<close>

definition wsInitial :: ws_state where
  "wsInitial = \<lparr> connections = [], rateLimiters = [], totalConnections = 0,
                 activeConnections = 0, messagesReceived = 0, bandwidthIn = 0, errors = 0 \<rparr>"

definition wsTwoPerIP :: ws_config where
  "wsTwoPerIP = \<lparr> maxConnections = 1000,
                  rateLimiting = \<lparr> ws_enabled = True, maxConnectionsPerIP = 2,
                                   ws_windowMs = 60000, maxMessages = 100 \<rparr>,
                  authEnabled = False \<rparr>"

text \<open>Three connections from one address at the times 0, 10 and 20, no message sent.\<close>

definition afterFirst :: "ws_result \<times> ws_state" where
  "afterFirst = onConnection wsTwoPerIP ''c1'' ''10.0.0.7'' True 0 0 0 wsInitial"

definition afterSecond :: "ws_result \<times> ws_state" where
  "afterSecond = onConnection wsTwoPerIP ''c2'' ''10.0.0.7'' True 10 10 10 (snd afterFirst)"

definition afterThird :: "ws_result \<times> ws_state" where
  "afterThird = onConnection wsTwoPerIP ''c3'' ''10.0.0.7'' True 20 20 20 (snd afterSecond)"

section \<open>Facts about the Map operations\<close>

lemma js_get_simps:
  "js_get [] k = None"
  "js_get ((k', v) # m) k = (if k = k' then Some v else js_get m k)"
  by (simp_all add: js_get_def)

lemma js_get_js_set: "js_get (js_set m k v) k' = (if k' = k then Some v else js_get m k')"
  by (induction m) (auto simp: js_get_def)

lemma js_get_js_delete: "js_get (js_delete m k) k' = (if k' = k then None else js_get m k')"
  by (induction m) (auto simp: js_get_def js_delete_def)

lemma js_set_keys:
  "map fst (js_set m k v) = (if k \<in> fst ` set m then map fst m else map fst m @ [k])"
proof (induction m)
  case Nil
  show ?case by simp
next
  case (Cons e m)
  obtain k' v' where e: "e = (k', v')" by (cases e)
  show ?case
  proof (cases "k' = k")
    case True
    with e show ?thesis by simp
  next
    case False
    with e Cons show ?thesis by (cases "k \<in> fst ` set m") simp_all
  qed
qed

lemma js_set_distinct:
  assumes "distinct (map fst m)"
  shows "distinct (map fst (js_set m k v))"
  using assms by (auto simp: js_set_keys)

lemma js_delete_distinct:
  assumes "distinct (map fst m)"
  shows "distinct (map fst (js_delete m k))"
  using assms by (simp add: js_delete_def distinct_map_filter)

lemma banIP_requestStore [simp]: "requestStore (banIP cfg key tk st) = requestStore st"
  by (simp add: banIP_def Let_def)

lemma banIP_violationStore [simp]: "violationStore (banIP cfg key tk st) = violationStore st"
  by (simp add: banIP_def Let_def)

lemma handleViolation_requestStore [simp]:
  "requestStore (handleViolation cfg key tk st) = requestStore st"
  by (simp add: handleViolation_def Let_def)

lemma isRateLimited_returns:
  assumes "effectiveLimit rx cfg req = Inr l"
  shows "\<exists>b st'. isRateLimited rx cfg key req tk st = Inr (b, st')"
  using assms by (auto simp: isRateLimited_def Let_def)

lemma isRateLimited_throws:
  assumes "effectiveLimit rx cfg req = Inl e"
  shows "isRateLimited rx cfg key req tk st = Inl e"
  using assms by (simp add: isRateLimited_def Let_def)

lemma isRateLimited_distinct:
  assumes "distinct (map fst (requestStore st))"
    and "isRateLimited rx cfg key req tk st = Inr (limited, st')"
  shows "distinct (map fst (requestStore st'))"
proof -
  obtain d where "requestStore st' = js_set (requestStore st) key d"
    using assms(2)
    by (auto simp: isRateLimited_def Let_def split: sum.splits if_splits)
  with assms(1) show ?thesis by (simp add: js_set_distinct)
qed

section \<open>Sliding-window admission\<close>

text \<open>
  C1. In sliding mode, every admission of \<open>key\<close> at time \<open>now\<close> whose limit can be
  computed returns and leaves for that key a record whose timestamp sequence is the
  previously recorded timestamps \<open>t\<close> with \<open>now - t < windowMs\<close>, in their order, followed
  by \<open>now\<close>, and whose count is the number of those surviving timestamps plus one; the
  request is limited exactly when that count exceeds the limit.
\<close>

theorem sliding_admit_count:
  assumes "windowType cfg = ''sliding''"
    and "effectiveLimit rx cfg req = Inr limit"
  shows "\<exists>limited st'.
           isRateLimited rx cfg key req tk st = Inr (limited, st')
         \<and> map_option requests (js_get (requestStore st') key) =
             Some (filter (\<lambda>t. t_admit tk - t < windowMs cfg) (previousTimestamps st key)
                   @ [t_admit tk])
         \<and> map_option count (js_get (requestStore st') key) =
             Some (int (length (filter (\<lambda>t. t_admit tk - t < windowMs cfg)
                                  (previousTimestamps st key))) + 1)
         \<and> limited = (limit < int (length (filter (\<lambda>t. t_admit tk - t < windowMs cfg)
                                              (previousTimestamps st key))) + 1)"
  using assms
  by (auto simp: isRateLimited_def Let_def previousTimestamps_def js_get_js_set
           split: option.splits)

theorem sliding_admit_count_witness:
  "\<exists>limited st'.
     isRateLimited literalRegExp slidingConfig ''K'' clientK (allAt 1050) storeK = Inr (limited, st')
     \<and> map_option requests (js_get (requestStore st') ''K'') = Some [100, 200, 1050]
     \<and> map_option count (js_get (requestStore st') ''K'') = Some 3
     \<and> limited"
proof -
  have sl: "windowType slidingConfig = ''sliding''"
    by (simp add: slidingConfig_def defaultConfig_def)
  have l: "effectiveLimit literalRegExp slidingConfig clientK = Inr 2"
    by (simp add: effectiveLimit_def getRouteLimit_def getMethodLimit_def
          slidingConfig_def defaultConfig_def clientK_def)
  have p: "previousTimestamps storeK ''K'' = [0, 100, 200]"
    by (simp add: previousTimestamps_def storeK_def emptyStore_def js_get_def)
  have w: "windowMs slidingConfig = 1000" "t_admit (allAt 1050) = 1050"
    by (simp_all add: slidingConfig_def defaultConfig_def allAt_def)
  from sliding_admit_count [OF sl l, of "''K''" "allAt 1050" storeK] show ?thesis
    unfolding p w by simp
qed

section \<open>The limit applied to a request\<close>

lemma routeLimitLoop_skip:
  assumes "\<forall>e\<in>set pre. rx (fst e) p = Some False"
  shows "routeLimitLoop rx (pre @ post) p dflt = routeLimitLoop rx post p dflt"
  using assms by (induction pre) auto

lemma routeLimitLoop_hit:
  assumes "rx (fst e) p = Some True"
  shows "routeLimitLoop rx (e # es) p dflt = Inr (snd e)"
  using assms by (cases e) simp

text \<open>
  C2, as the specification states it, fails: with the patterns \<open>/admin\<close> (5), \<open>/api\<close> (50)
  and \<open>/api/users\<close> (20) and no method limit, a request for \<open>/api/users\<close> is matched by
  the second and the third pattern; the code applies 50, the limit of the first pattern
  that matches, where the minimum over all matching patterns is 20.
\<close>

theorem effective_limit_counterexample:
  "effectiveLimit literalRegExp overlapConfig usersRequest = Inr 50
   \<and> specEffectiveLimit literalRegExp overlapConfig usersRequest = 20
   \<and> effectiveLimit literalRegExp overlapConfig usersRequest
       \<noteq> Inr (specEffectiveLimit literalRegExp overlapConfig usersRequest)"
  by (simp add: effectiveLimit_def specEffectiveLimit_def getRouteLimit_def getMethodLimit_def
        overlapConfig_def defaultConfig_def usersRequest_def literalRegExp_def Let_def)

text \<open>
  C2, amended. The limit applied is the minimum of the route limit and the method limit,
  where the route limit is the limit of the first pattern, in the order of the
  configuration, that matches the path (patterns after it are not consulted), or
  \<open>maxRequests\<close> when none matches, and the method limit is the one configured for the
  method, or \<open>maxRequests\<close> when none is configured or it is 0.
\<close>

theorem effective_limit_first_match:
  assumes "routeLimits cfg = pre @ post"
    and "\<forall>e\<in>set pre. rx (fst e) (path req) = Some False"
    and "post = [] \<or> rx (fst (hd post)) (path req) = Some True"
  shows "effectiveLimit rx cfg req =
           Inr (min (if post = [] then maxRequests cfg else snd (hd post))
                    (case map_of (methodLimits cfg) (httpMethod req) of
                       None \<Rightarrow> maxRequests cfg
                     | Some l \<Rightarrow> if l = 0 then maxRequests cfg else l))"
proof -
  have loop: "getRouteLimit rx cfg (path req) =
                routeLimitLoop rx post (path req) (maxRequests cfg)"
    using assms(1,2) by (simp add: getRouteLimit_def routeLimitLoop_skip)
  show ?thesis
  proof (cases post)
    case Nil
    with loop show ?thesis
      by (simp add: effectiveLimit_def getMethodLimit_def)
  next
    case (Cons e es)
    with assms(3) have "rx (fst e) (path req) = Some True" by simp
    with loop Cons show ?thesis
      by (simp add: effectiveLimit_def getMethodLimit_def routeLimitLoop_hit)
  qed
qed

theorem effective_limit_first_match_witness:
  "effectiveLimit literalRegExp overlapConfig usersRequest = Inr (min 50 100)"
proof -
  have a: "routeLimits overlapConfig = [(''/admin'', 5)] @ [(''/api'', 50), (''/api/users'', 20)]"
    by (simp add: overlapConfig_def defaultConfig_def)
  have b: "\<forall>e\<in>set [(''/admin'', 5::int)]. literalRegExp (fst e) (path usersRequest) = Some False"
    by (simp add: literalRegExp_def usersRequest_def)
  have c: "[(''/api'', 50::int), (''/api/users'', 20)] = []
           \<or> literalRegExp (fst (hd [(''/api'', 50::int), (''/api/users'', 20)])) (path usersRequest)
               = Some True"
    by (simp add: literalRegExp_def usersRequest_def)
  from effective_limit_first_match
         [where cfg = overlapConfig and rx = literalRegExp and req = usersRequest
            and pre = "[(''/admin'', 5)]" and post = "[(''/api'', 50), (''/api/users'', 20)]",
          OF a b c]
  show ?thesis
    by (simp add: overlapConfig_def defaultConfig_def usersRequest_def)
qed

section \<open>Violations and bans\<close>

lemma handleViolation_record:
  "js_get (violationStore (handleViolation cfg key tk st)) key =
     Some ((previousViolation st key)
             \<lparr> violationCount := violationCount (previousViolation st key) + 1,
               timestamps := timestamps (previousViolation st key) @ [t_violation tk] \<rparr>)"
  by (simp add: handleViolation_def previousViolation_def Let_def js_get_js_set)

lemma handleViolation_banStore:
  "banStore (handleViolation cfg key tk st) =
     (if enabled (autoBan cfg)
         \<and> maxViolations (autoBan cfg) \<le> violationCount (previousViolation st key) + 1
      then js_set (banStore st) key
             \<lparr> timestamp = t_banStamp tk,
               violations = violationCount (previousViolation st key) + 1,
               expiresAt = t_banExpiry tk + banDurationMs (autoBan cfg) \<rparr>
      else banStore st)"
  by (simp add: handleViolation_def banIP_def previousViolation_def Let_def js_get_js_set)

text \<open>
  C5, as the specification states it, fails: \<open>handleViolation\<close> prunes nothing. With
  \<open>windowMs = 1000\<close>, a key whose violation of time 0 is still on record and that violates
  again at time 10000 ends with the timestamps \<open>[0, 10000]\<close>, the first of them older than
  \<open>2 * windowMs\<close>, and with count 2, where only the second timestamp lies within the
  horizon; that count of 2 reaches \<open>maxViolations = 2\<close> and the key is banned.
\<close>

theorem violation_pruning_counterexample:
  "map_option timestamps
     (js_get (violationStore (handleViolation banConfig ''K'' (allAt 10000) staleStore)) ''K'')
     = Some [0, 10000]
   \<and> 2 * windowMs banConfig < 10000 - 0
   \<and> map_option violationCount
     (js_get (violationStore (handleViolation banConfig ''K'' (allAt 10000) staleStore)) ''K'')
     = Some 2
   \<and> js_get (banStore (handleViolation banConfig ''K'' (allAt 10000) staleStore)) ''K''
     = Some \<lparr> timestamp = 10000, violations = 2, expiresAt = 70000 \<rparr>"
proof -
  have p: "previousViolation staleStore ''K'' = \<lparr> violationCount = 1, timestamps = [0] \<rparr>"
    by (simp add: previousViolation_def staleStore_def emptyStore_def js_get_def)
  have c: "windowMs banConfig = 1000" "enabled (autoBan banConfig)"
    "maxViolations (autoBan banConfig) = 2" "banDurationMs (autoBan banConfig) = 60000"
    by (simp_all add: banConfig_def slidingConfig_def defaultConfig_def)
  have e: "js_get (banStore staleStore) ''K'' = None" "banStore staleStore = []"
    by (simp_all add: staleStore_def emptyStore_def js_get_def)
  show ?thesis
    by (simp add: handleViolation_record handleViolation_banStore p c e allAt_def js_get_simps)
qed

lemma cleanupViolations_pruned:
  assumes "e \<in> set (cleanupViolations cfg now vs)"
  shows "violationCount (snd e) = int (length (timestamps (snd e)))
       \<and> timestamps (snd e) \<noteq> []
       \<and> (\<forall>t\<in>set (timestamps (snd e)). now - t < windowMs cfg * 2)"
  using assms
proof (induction vs)
  case Nil
  then show ?case by simp
next
  case (Cons x vs)
  obtain k' v' where x: "x = (k', v')" by (cases x)
  let ?ts = "filter (\<lambda>time. now - time < windowMs cfg * 2) (timestamps v')"
  show ?case
  proof (cases "?ts = []")
    case True
    with Cons x show ?thesis by (simp add: Let_def)
  next
    case False
    with Cons.prems x have
      "e = (k', v'\<lparr> timestamps := ?ts, violationCount := int (length ?ts) \<rparr>)
       \<or> e \<in> set (cleanupViolations cfg now vs)"
      by (simp add: Let_def)
    then show ?thesis
    proof
      assume "e = (k', v'\<lparr> timestamps := ?ts, violationCount := int (length ?ts) \<rparr>)"
      with False show ?thesis by auto
    next
      assume "e \<in> set (cleanupViolations cfg now vs)"
      with Cons.IH show ?thesis by simp
    qed
  qed
qed

lemma cleanup_violationStore:
  "violationStore (cleanup cfg now st) = cleanupViolations cfg now (violationStore st)"
  by (simp add: cleanup_def Let_def)

text \<open>
  C5, amended. After \<open>handleViolation\<close> the record of the key holds the previous
  timestamps, all of them, followed by the current clock reading, and the previous count
  plus one, so that \<open>count = length timestamps\<close> holds after it if it held before; the
  count compared with \<open>maxViolations\<close> is this unpruned count. Timestamps are pruned to
  the horizon of \<open>2 * windowMs\<close>, and the count recomputed from what is left, only by the
  sweep of the Janitor: after a sweep every violation record satisfies both properties.
\<close>

theorem handleViolation_appends:
  "(\<exists>v. js_get (violationStore (handleViolation cfg key tk st)) key = Some v
        \<and> timestamps v = timestamps (previousViolation st key) @ [t_violation tk]
        \<and> violationCount v = violationCount (previousViolation st key) + 1
        \<and> (violationCount (previousViolation st key)
              = int (length (timestamps (previousViolation st key)))
            \<longrightarrow> violationCount v = int (length (timestamps v))))
   \<and> banStore (handleViolation cfg key tk st) =
     (if enabled (autoBan cfg)
         \<and> maxViolations (autoBan cfg) \<le> violationCount (previousViolation st key) + 1
      then js_set (banStore st) key
             \<lparr> timestamp = t_banStamp tk,
               violations = violationCount (previousViolation st key) + 1,
               expiresAt = t_banExpiry tk + banDurationMs (autoBan cfg) \<rparr>
      else banStore st)
   \<and> (\<forall>e\<in>set (violationStore (cleanup cfg now st)).
        violationCount (snd e) = int (length (timestamps (snd e)))
        \<and> (\<forall>t\<in>set (timestamps (snd e)). now - t < 2 * windowMs cfg))"
proof (intro conjI)
  show "\<exists>v. js_get (violationStore (handleViolation cfg key tk st)) key = Some v
        \<and> timestamps v = timestamps (previousViolation st key) @ [t_violation tk]
        \<and> violationCount v = violationCount (previousViolation st key) + 1
        \<and> (violationCount (previousViolation st key)
              = int (length (timestamps (previousViolation st key)))
            \<longrightarrow> violationCount v = int (length (timestamps v)))"
    by (simp add: handleViolation_record)
  show "banStore (handleViolation cfg key tk st) =
     (if enabled (autoBan cfg)
         \<and> maxViolations (autoBan cfg) \<le> violationCount (previousViolation st key) + 1
      then js_set (banStore st) key
             \<lparr> timestamp = t_banStamp tk,
               violations = violationCount (previousViolation st key) + 1,
               expiresAt = t_banExpiry tk + banDurationMs (autoBan cfg) \<rparr>
      else banStore st)"
    by (rule handleViolation_banStore)
  show "\<forall>e\<in>set (violationStore (cleanup cfg now st)).
        violationCount (snd e) = int (length (timestamps (snd e)))
        \<and> (\<forall>t\<in>set (timestamps (snd e)). now - t < 2 * windowMs cfg)"
    using cleanupViolations_pruned [of _ cfg now "violationStore st"]
    by (simp add: cleanup_violationStore mult.commute)
qed

theorem handleViolation_appends_witness:
  "map_option timestamps
     (js_get (violationStore (handleViolation banConfig ''K'' (allAt 10000) staleStore)) ''K'')
     = Some [0, 10000]
   \<and> map_option violationCount
     (js_get (violationStore (handleViolation banConfig ''K'' (allAt 10000) staleStore)) ''K'')
     = Some 2
   \<and> violationStore (cleanup banConfig 10500
        (handleViolation banConfig ''K'' (allAt 10000) staleStore))
     = [(''K'', \<lparr> violationCount = 1, timestamps = [10000] \<rparr>)]"
proof -
  have p: "previousViolation staleStore ''K'' = \<lparr> violationCount = 1, timestamps = [0] \<rparr>"
    by (simp add: previousViolation_def staleStore_def emptyStore_def js_get_simps)
  from handleViolation_appends
         [where cfg = banConfig and key = "''K''" and tk = "allAt 10000" and st = staleStore
            and now = 0, THEN conjunct1]
  obtain v where v: "js_get (violationStore (handleViolation banConfig ''K'' (allAt 10000)
                                staleStore)) ''K'' = Some v"
      "timestamps v = [0, 10000]" "violationCount v = 2"
    by (auto simp: p allAt_def)
  have "violationStore (handleViolation banConfig ''K'' (allAt 10000) staleStore)
          = [(''K'', \<lparr> violationCount = 2, timestamps = [0, 10000] \<rparr>)]"
    by (simp add: handleViolation_def banIP_def staleStore_def emptyStore_def allAt_def
          js_get_simps Let_def)
  then have "violationStore (cleanup banConfig 10500
        (handleViolation banConfig ''K'' (allAt 10000) staleStore))
     = [(''K'', \<lparr> violationCount = 1, timestamps = [10000] \<rparr>)]"
    by (simp add: cleanup_violationStore banConfig_def slidingConfig_def defaultConfig_def)
  with v show ?thesis by simp
qed

text \<open>
  C6, as the specification states it, fails where auto-ban is not enabled, which is the
  default: the fifth violation of a key brings its count to \<open>maxViolations = 5\<close> and no
  ban is created.
\<close>

theorem auto_ban_disabled_counterexample:
  "map_option violationCount
     (js_get (violationStore (handleViolation defaultConfig ''K'' (allAt 500) fourStrikes)) ''K'')
     = Some (maxViolations (autoBan defaultConfig))
   \<and> js_get (banStore (handleViolation defaultConfig ''K'' (allAt 500) fourStrikes)) ''K'' = None"
proof -
  have p: "previousViolation fourStrikes ''K''
             = \<lparr> violationCount = 4, timestamps = [100, 200, 300, 400] \<rparr>"
    by (simp add: previousViolation_def fourStrikes_def emptyStore_def js_get_simps)
  have c: "\<not> enabled (autoBan defaultConfig)" "maxViolations (autoBan defaultConfig) = 5"
    by (simp_all add: defaultConfig_def)
  have e: "banStore fourStrikes = []"
    by (simp add: fourStrikes_def emptyStore_def)
  show ?thesis
    by (simp add: handleViolation_record handleViolation_banStore p c e js_get_simps)
qed

lemma isIPBanned_result:
  assumes "js_get (banStore s) k = Some b"
  shows "isIPBanned k now s =
           (if expiresAt b < now then (False, s\<lparr>banStore := js_delete (banStore s) k\<rparr>)
            else (True, s))"
  using assms by (simp add: isIPBanned_def)

lemma isIPBanned_absent:
  assumes "js_get (banStore s) k = None"
  shows "isIPBanned k now s = (False, s)"
  using assms by (simp add: isIPBanned_def)

text \<open>
  C6, amended. When auto-ban is enabled and a violation brings the count of a key to
  \<open>maxViolations\<close> or beyond, a ban is stored for the key whose expiry is
  \<open>banDurationMs\<close> after that event, as the clock reads when \<open>banIP\<close> computes it. For
  every key with a ban record,
  \<open>isIPBanned\<close> returns true at every lookup time up to and including \<open>expiresAt\<close>,
  leaving the store as it is, and false at every time after it; that first expired lookup
  deletes the record, and every later lookup finds none.
\<close>

theorem auto_ban_lifecycle:
  "(enabled (autoBan cfg)
      \<and> maxViolations (autoBan cfg) \<le> violationCount (previousViolation st key) + 1
    \<longrightarrow> js_get (banStore (handleViolation cfg key tk st)) key
          = Some \<lparr> timestamp = t_banStamp tk,
                   violations = violationCount (previousViolation st key) + 1,
                   expiresAt = t_banExpiry tk + banDurationMs (autoBan cfg) \<rparr>)
   \<and> (js_get (banStore s) k = Some b
    \<longrightarrow> fst (isIPBanned k now s) = (now \<le> expiresAt b)
        \<and> (now \<le> expiresAt b \<longrightarrow> snd (isIPBanned k now s) = s)
        \<and> (expiresAt b < now \<longrightarrow>
              js_get (banStore (snd (isIPBanned k now s))) k = None
              \<and> isIPBanned k later (snd (isIPBanned k now s))
                  = (False, snd (isIPBanned k now s))))"
proof (intro conjI impI)
  assume "enabled (autoBan cfg)
      \<and> maxViolations (autoBan cfg) \<le> violationCount (previousViolation st key) + 1"
  then show "js_get (banStore (handleViolation cfg key tk st)) key
          = Some \<lparr> timestamp = t_banStamp tk,
                   violations = violationCount (previousViolation st key) + 1,
                   expiresAt = t_banExpiry tk + banDurationMs (autoBan cfg) \<rparr>"
    by (simp add: handleViolation_banStore js_get_js_set)
next
  assume b: "js_get (banStore s) k = Some b"
  show "fst (isIPBanned k now s) = (now \<le> expiresAt b)"
    by (auto simp: isIPBanned_result [OF b])
  { assume "now \<le> expiresAt b"
    then show "snd (isIPBanned k now s) = s"
      by (simp add: isIPBanned_result [OF b]) }
  { assume x: "expiresAt b < now"
    then show gone: "js_get (banStore (snd (isIPBanned k now s))) k = None"
      by (simp add: isIPBanned_result [OF b] js_get_js_delete)
    show "isIPBanned k later (snd (isIPBanned k now s)) = (False, snd (isIPBanned k now s))"
      by (rule isIPBanned_absent [OF gone]) }
qed

theorem auto_ban_lifecycle_witness:
  "js_get (banStore (handleViolation banConfig ''K'' (allAt 10000) staleStore)) ''K''
     = Some \<lparr> timestamp = 10000, violations = 2, expiresAt = 70000 \<rparr>
   \<and> fst (isIPBanned ''K'' 70000 (handleViolation banConfig ''K'' (allAt 10000) staleStore))
   \<and> snd (isIPBanned ''K'' 70000 (handleViolation banConfig ''K'' (allAt 10000) staleStore))
       = handleViolation banConfig ''K'' (allAt 10000) staleStore
   \<and> \<not> fst (isIPBanned ''K'' 70001 (handleViolation banConfig ''K'' (allAt 10000) staleStore))
   \<and> js_get (banStore (snd (isIPBanned ''K'' 70001
         (handleViolation banConfig ''K'' (allAt 10000) staleStore)))) ''K'' = None"
proof -
  let ?S = "handleViolation banConfig ''K'' (allAt 10000) staleStore"
  let ?b = "\<lparr> timestamp = 10000, violations = 2, expiresAt = 70000 \<rparr>"
  have p: "violationCount (previousViolation staleStore ''K'') = 1"
    by (simp add: previousViolation_def staleStore_def emptyStore_def js_get_simps)
  have c: "enabled (autoBan banConfig)" "maxViolations (autoBan banConfig) = 2"
    "banDurationMs (autoBan banConfig) = 60000"
    by (simp_all add: banConfig_def slidingConfig_def defaultConfig_def)
  have created: "js_get (banStore ?S) ''K'' = Some ?b"
    using auto_ban_lifecycle [of banConfig staleStore "''K''" "allAt 10000"]
    by (simp add: p c allAt_def)
  have at: "fst (isIPBanned ''K'' 70000 ?S) \<and> snd (isIPBanned ''K'' 70000 ?S) = ?S"
    using auto_ban_lifecycle [of banConfig staleStore "''K''" "allAt 10000" ?S "''K''" ?b 70000]
      created by simp
  have after: "\<not> fst (isIPBanned ''K'' 70001 ?S)
               \<and> js_get (banStore (snd (isIPBanned ''K'' 70001 ?S))) ''K'' = None"
    using auto_ban_lifecycle [of banConfig staleStore "''K''" "allAt 10000" ?S "''K''" ?b 70001]
      created by simp
  from created at after show ?thesis by simp
qed

lemma isIPBanned_frame:
  "requestStore (snd (isIPBanned k now s)) = requestStore s
   \<and> violationStore (snd (isIPBanned k now s)) = violationStore s"
  by (simp add: isIPBanned_def split: option.splits)

lemma getRateLimitInfo_frame:
  "requestStore (snd (getRateLimitInfo cfg k now nowReset s)) = requestStore s
   \<and> violationStore (snd (getRateLimitInfo cfg k now nowReset s)) = violationStore s"
  by (simp add: getRateLimitInfo_def Let_def isIPBanned_frame)

lemma handleRateLimit_frame:
  "requestStore (handleRateLimit cfg k tk s) = requestStore s
   \<and> violationStore (handleRateLimit cfg k tk s) = violationStore s"
  by (simp add: handleRateLimit_def getRateLimitInfo_frame)

section \<open>The middleware and a banned key\<close>

text \<open>
  C7, as the specification states it, fails on the outcome: the checks of \<open>skip\<close>, of
  \<open>skipOptions\<close>, of the whitelist and of the blacklist come before the ban check. With
  \<open>skipOptions\<close> set, an OPTIONS request of a client whose key is banned is passed on.
\<close>

theorem banned_request_counterexample:
  "fst (isIPBanned (generateKey optionsConfig optionsRequest) (t_banCheck (allAt 1000)) bannedStore)
   \<and> fst (middleware literalRegExp optionsConfig False optionsRequest (allAt 1000) bannedStore)
       = Allow"
  by (simp add: middleware_def generateKey_def isIPBanned_def optionsConfig_def defaultConfig_def
        optionsRequest_def bannedStore_def emptyStore_def allAt_def defaultKeyGenerator_def
        defaultSkip_def js_get_simps)

text \<open>
  C7, amended. For every request whose key is banned when the middleware runs, the
  request store and the violation store are left unchanged: no counter is incremented and
  no violation is recorded. The outcome is BANNED for every such request that reaches the
  ban check; a request skipped by \<open>skip\<close> or \<open>skipOptions\<close> or with a whitelisted key is
  passed on, and one with a blacklisted key is answered as rate-limited.
\<close>

theorem banned_request_frame:
  assumes "fst (isIPBanned (generateKey cfg req) (t_banCheck tk) st)"
  shows "requestStore (snd (middleware rx cfg logOn req tk st)) = requestStore st
       \<and> violationStore (snd (middleware rx cfg logOn req tk st)) = violationStore st
       \<and> fst (middleware rx cfg logOn req tk st) =
           (if skip cfg req then Allow
            else if skipOptions cfg \<and> httpMethod req = ''OPTIONS'' then Allow
            else if generateKey cfg req \<in> set (whitelist cfg) then Allow
            else if generateKey cfg req \<in> set (blacklist cfg) then RateLimited
            else Banned)"
proof -
  obtain s1 where b: "isIPBanned (generateKey cfg req) (t_banCheck tk) st = (True, s1)"
    using assms by (cases "isIPBanned (generateKey cfg req) (t_banCheck tk) st") auto
  have s1: "requestStore s1 = requestStore st" "violationStore s1 = violationStore st"
    using isIPBanned_frame [of "generateKey cfg req" "t_banCheck tk" st] b by simp_all
  show ?thesis
    by (simp add: middleware_def Let_def b s1 handleRateLimit_frame)
qed

theorem banned_request_frame_witness:
  "fst (middleware literalRegExp optionsConfig False getRequest (allAt 1000) bannedStore) = Banned
   \<and> requestStore (snd (middleware literalRegExp optionsConfig False getRequest (allAt 1000)
                           bannedStore)) = []
   \<and> violationStore (snd (middleware literalRegExp optionsConfig False getRequest (allAt 1000)
                             bannedStore)) = []"
proof -
  have k: "generateKey optionsConfig getRequest = ''10.0.0.7''"
    by (simp add: generateKey_def optionsConfig_def defaultConfig_def getRequest_def
          defaultKeyGenerator_def)
  have b: "fst (isIPBanned (generateKey optionsConfig getRequest) (t_banCheck (allAt 1000))
                  bannedStore)"
    by (simp add: k isIPBanned_def bannedStore_def emptyStore_def allAt_def js_get_simps)
  have c: "\<not> skip optionsConfig getRequest" "httpMethod getRequest = ''GET''"
    "whitelist optionsConfig = []" "blacklist optionsConfig = []"
    by (simp_all add: optionsConfig_def defaultConfig_def getRequest_def defaultSkip_def)
  have e: "requestStore bannedStore = []" "violationStore bannedStore = []"
    by (simp_all add: bannedStore_def emptyStore_def)
  from banned_request_frame [OF b, of literalRegExp False] show ?thesis
    by (simp add: c e k)
qed

section \<open>Key resolution\<close>

lemma generateKey_shape:
  "generateKey cfg req =
     js_str (keyGenerator cfg req)
     @ (if routeLimits cfg \<noteq> [] then '':'' @ path req else [])
     @ (if methodLimits cfg \<noteq> [] then '':'' @ httpMethod req else [])"
  by (simp add: generateKey_def Let_def)

lemma colon_split:
  assumes "CHR '':'' \<notin> set a" and "CHR '':'' \<notin> set b"
    and "a @ CHR '':'' # x = b @ CHR '':'' # y"
  shows "a = b \<and> x = y"
proof -
  have "takeWhile (\<lambda>c. c \<noteq> CHR '':'') (a @ CHR '':'' # x) = a"
    using assms(1) by (auto simp: takeWhile_tail takeWhile_eq_all_conv)
  moreover have "takeWhile (\<lambda>c. c \<noteq> CHR '':'') (b @ CHR '':'' # y) = b"
    using assms(2) by (auto simp: takeWhile_tail takeWhile_eq_all_conv)
  ultimately have "a = b" using assms(3) by simp
  with assms(3) show ?thesis by simp
qed

lemma colon_free_no_split:
  assumes "CHR '':'' \<notin> set a"
  shows "a \<noteq> b @ CHR '':'' # y"
  using assms by auto

text \<open>
  C8, as the specification states it, fails. A request whose identity is unresolved gets
  the empty string as its identity, not \<open>unknown\<close>. With route limits and no method limits
  configured, the method is no part of the key, and two requests that differ in the method
  only have the same key. And the delimiter may occur inside a component: the identity
  \<open>a:/b\<close> with the path \<open>/c\<close> and the identity \<open>a\<close> with the path \<open>/b:/c\<close> have the same
  key.
\<close>

theorem generateKey_counterexample:
  "generateKey defaultConfig anonymousRequest = ''''
   \<and> generateKey defaultConfig anonymousRequest \<noteq> ''unknown''
   \<and> httpMethod usersRequest \<noteq> httpMethod usersPost
   \<and> generateKey routeConfig usersRequest = generateKey routeConfig usersPost
   \<and> keyGenerator routeConfig colonIdentityRequest \<noteq> keyGenerator routeConfig colonPathRequest
   \<and> path colonIdentityRequest \<noteq> path colonPathRequest
   \<and> generateKey routeConfig colonIdentityRequest = generateKey routeConfig colonPathRequest"
  by (simp add: generateKey_def routeConfig_def defaultConfig_def defaultKeyGenerator_def
        anonymousRequest_def usersRequest_def usersPost_def colonIdentityRequest_def
        colonPathRequest_def)

text \<open>
  C8, amended. Key resolution is total: the key is the identity, an unresolved identity
  being the empty string, followed by \<open>:\<close> and the path when route limits are configured,
  and by \<open>:\<close> and the method when method limits are configured. Two requests whose
  identities and paths contain no \<open>:\<close> have the same key exactly when they agree on the
  identity and on each component that the configuration puts into the key.
\<close>

theorem generateKey_injective:
  assumes "CHR '':'' \<notin> set (js_str (keyGenerator cfg r1))"
    and "CHR '':'' \<notin> set (js_str (keyGenerator cfg r2))"
    and "CHR '':'' \<notin> set (path r1)" and "CHR '':'' \<notin> set (path r2)"
  shows "generateKey cfg r = js_str (keyGenerator cfg r)
           @ (if routeLimits cfg \<noteq> [] then '':'' @ path r else [])
           @ (if methodLimits cfg \<noteq> [] then '':'' @ httpMethod r else [])
       \<and> (generateKey cfg r1 = generateKey cfg r2 \<longleftrightarrow>
            js_str (keyGenerator cfg r1) = js_str (keyGenerator cfg r2)
            \<and> (routeLimits cfg \<noteq> [] \<longrightarrow> path r1 = path r2)
            \<and> (methodLimits cfg \<noteq> [] \<longrightarrow> httpMethod r1 = httpMethod r2))"
proof (intro conjI)
  show "generateKey cfg r = js_str (keyGenerator cfg r)
           @ (if routeLimits cfg \<noteq> [] then '':'' @ path r else [])
           @ (if methodLimits cfg \<noteq> [] then '':'' @ httpMethod r else [])"
    by (rule generateKey_shape)
next
  let ?i1 = "js_str (keyGenerator cfg r1)" and ?i2 = "js_str (keyGenerator cfg r2)"
  show "generateKey cfg r1 = generateKey cfg r2 \<longleftrightarrow>
            ?i1 = ?i2
            \<and> (routeLimits cfg \<noteq> [] \<longrightarrow> path r1 = path r2)
            \<and> (methodLimits cfg \<noteq> [] \<longrightarrow> httpMethod r1 = httpMethod r2)"
  proof (cases "routeLimits cfg = []")
    case noRoute: True
    show ?thesis
    proof (cases "methodLimits cfg = []")
      case True
      with noRoute show ?thesis by (simp add: generateKey_shape)
    next
      case False
      with noRoute show ?thesis
        using colon_split [OF assms(1,2), of "httpMethod r1" "httpMethod r2"]
        by (auto simp: generateKey_shape)
    qed
  next
    case route: False
    show ?thesis
    proof (cases "methodLimits cfg = []")
      case True
      with route show ?thesis
        using colon_split [OF assms(1,2), of "path r1" "path r2"]
        by (auto simp: generateKey_shape)
    next
      case False
      have "?i1 @ CHR '':'' # (path r1 @ CHR '':'' # httpMethod r1)
            = ?i2 @ CHR '':'' # (path r2 @ CHR '':'' # httpMethod r2)
            \<longleftrightarrow> ?i1 = ?i2 \<and> path r1 = path r2 \<and> httpMethod r1 = httpMethod r2"
        using colon_split [OF assms(1,2), of "path r1 @ CHR '':'' # httpMethod r1"
                "path r2 @ CHR '':'' # httpMethod r2"]
          colon_split [OF assms(3,4), of "httpMethod r1" "httpMethod r2"]
        by auto
      with route False show ?thesis by (simp add: generateKey_shape)
    qed
  qed
qed

theorem generateKey_injective_witness:
  "generateKey routeConfig usersRequest = ''10.0.0.7:/api/users''
   \<and> generateKey routeConfig usersRequest \<noteq> generateKey routeConfig getRequest"
proof -
  have a: "CHR '':'' \<notin> set (js_str (keyGenerator routeConfig usersRequest))"
    "CHR '':'' \<notin> set (js_str (keyGenerator routeConfig getRequest))"
    "CHR '':'' \<notin> set (path usersRequest)" "CHR '':'' \<notin> set (path getRequest)"
    by (simp_all add: routeConfig_def defaultConfig_def defaultKeyGenerator_def
          usersRequest_def getRequest_def)
  have c: "routeLimits routeConfig \<noteq> []" "methodLimits routeConfig = []"
    "js_str (keyGenerator routeConfig usersRequest) = ''10.0.0.7''"
    "js_str (keyGenerator routeConfig getRequest) = ''10.0.0.7''"
    "path usersRequest = ''/api/users''" "path getRequest = ''/''"
    by (simp_all add: routeConfig_def defaultConfig_def defaultKeyGenerator_def
          usersRequest_def getRequest_def)
  note t = generateKey_injective [OF a, of usersRequest]
  from t [THEN conjunct1] have "generateKey routeConfig usersRequest = ''10.0.0.7:/api/users''"
    by (simp add: c)
  moreover from t [THEN conjunct2] have "generateKey routeConfig usersRequest \<noteq> generateKey routeConfig getRequest"
    by (simp add: c)
  ultimately show ?thesis by (rule conjI)
qed

section \<open>Whitelist and blacklist\<close>

lemma generateKey_whitelist [simp]: "generateKey (cfg\<lparr>whitelist := w\<rparr>) req = generateKey cfg req"
  by (simp add: generateKey_def)

lemma generateKey_blacklist [simp]: "generateKey (cfg\<lparr>blacklist := w\<rparr>) req = generateKey cfg req"
  by (simp add: generateKey_def)













section \<open>The Janitor\<close>

lemma foldl_js_delete:
  "foldl js_delete rs ks = filter (\<lambda>e. fst e \<notin> set ks) rs"
proof (induction ks arbitrary: rs)
  case Nil
  then show ?case by simp
next
  case (Cons k ks)
  have "foldl js_delete (js_delete rs k) ks = filter (\<lambda>e. fst e \<notin> set ks) (js_delete rs k)"
    by (rule Cons.IH)
  also have "\<dots> = filter (\<lambda>e. fst e \<notin> set (k # ks)) rs"
    unfolding js_delete_def by (induction rs) simp_all
  finally show ?case by simp
qed

lemma evictOldest_over:
  assumes "0 \<le> maxStoreSize cfg" and "maxStoreSize cfg < int (length rs)"
  shows "evictOldest cfg rs =
           filter (\<lambda>e. fst e \<notin> fst ` set (take (nat (maxStoreSize cfg div 5))
                                             (sort_key (\<lambda>e. firstRequest (snd e)) rs))) rs"
proof -
  have "0 \<le> maxStoreSize cfg div 5" using assms(1) by simp
  then show ?thesis
    using assms(2) by (simp add: evictOldest_def entriesToDelete_def js_slice0_def foldl_js_delete)
qed

lemma filter_keys_eq_filter_entries:
  assumes "distinct (map fst rs)" and "set del \<subseteq> set rs"
  shows "filter (\<lambda>e. fst e \<notin> fst ` set del) rs = filter (\<lambda>e. e \<notin> set del) rs"
proof (rule filter_cong [OF refl])
  fix e assume e: "e \<in> set rs"
  have inj: "inj_on fst (set rs)" using assms(1) by (simp add: distinct_map)
  show "(fst e \<notin> fst ` set del) = (e \<notin> set del)"
  proof
    assume "fst e \<notin> fst ` set del" then show "e \<notin> set del" by auto
  next
    assume n: "e \<notin> set del"
    show "fst e \<notin> fst ` set del"
    proof
      assume "fst e \<in> fst ` set del"
      then obtain d where d: "d \<in> set del" "fst d = fst e" by auto
      with assms(2) have "d \<in> set rs" by auto
      with inj e d(2) have "d = e" by (auto dest: inj_onD)
      with d(1) n show False by simp
    qed
  qed
qed

lemma length_filter_not_in:
  assumes "distinct rs" and "distinct del" and "set del \<subseteq> set rs"
  shows "length (filter (\<lambda>e. e \<notin> set del) rs) = length rs - length del"
proof -
  have "length (filter (\<lambda>e. e \<in> set del) rs) = card ({e. e \<in> set del} \<inter> set rs)"
    using assms(1) by (rule distinct_length_filter)
  also have "{e. e \<in> set del} \<inter> set rs = set del" using assms(3) by auto
  also have "card (set del) = length del" using assms(2) by (rule distinct_card)
  finally have a: "length (filter (\<lambda>e. e \<in> set del) rs) = length del" .
  have "length (filter (\<lambda>e. e \<in> set del) rs) + length (filter (\<lambda>e. \<not> e \<in> set del) rs)
          = length rs"
    by (rule sum_length_filter_compl)
  with a show ?thesis by simp
qed

lemma evictOldest_length:
  assumes "distinct (map fst rs)" and "0 \<le> maxStoreSize cfg"
    and "maxStoreSize cfg < int (length rs)"
  shows "length (evictOldest cfg rs) = length rs - nat (maxStoreSize cfg div 5)"
proof -
  let ?n = "nat (maxStoreSize cfg div 5)"
  let ?sorted = "sort_key (\<lambda>e. firstRequest (snd e)) rs"
  let ?del = "take ?n ?sorted"
  have d: "distinct rs" using assms(1) by (simp add: distinct_map)
  have sub: "set ?del \<subseteq> set rs" using set_take_subset [of ?n ?sorted] by simp
  have dd: "distinct ?del" using d by simp
  have "?n \<le> length rs" using assms(2,3) by linarith
  then have ld: "length ?del = ?n" by simp
  have "evictOldest cfg rs = filter (\<lambda>e. e \<notin> set ?del) rs"
    by (simp add: evictOldest_over [OF assms(2,3)] filter_keys_eq_filter_entries [OF assms(1) sub])
  then show ?thesis
    by (simp add: length_filter_not_in [OF d dd sub] ld)
qed

lemma sorted_take_drop:
  assumes "sorted (map f xs)" and "x \<in> set (take n xs)" and "y \<in> set (drop n xs)"
  shows "f x \<le> f y"
proof -
  have "map f xs = map f (take n xs) @ map f (drop n xs)"
    by (simp only: map_append [symmetric] append_take_drop_id)
  with assms(1) have "sorted (map f (take n xs) @ map f (drop n xs))" by simp
  then have "\<forall>a\<in>set (map f (take n xs)). \<forall>b\<in>set (map f (drop n xs)). a \<le> b"
    by (simp only: sorted_append) blast
  moreover have "f x \<in> set (map f (take n xs))" "f y \<in> set (map f (drop n xs))"
    using assms(2,3) by (simp_all only: set_map imageI)
  ultimately show ?thesis by blast
qed

lemma evictOldest_oldest_first:
  assumes "distinct (map fst rs)" and "0 \<le> maxStoreSize cfg"
    and "maxStoreSize cfg < int (length rs)"
    and "e \<in> set rs" and "e \<notin> set (evictOldest cfg rs)" and "e' \<in> set (evictOldest cfg rs)"
  shows "firstRequest (snd e) \<le> firstRequest (snd e')"
proof -
  define f where "f = (\<lambda>e :: string \<times> window_record. firstRequest (snd e))"
  define srt where "srt = sort_key f rs"
  define n where "n = nat (maxStoreSize cfg div 5)"
  define del where "del = take n srt"
  have srt: "set srt = set rs" "sorted (map f srt)" by (simp_all add: srt_def)
  have sub: "set del \<subseteq> set rs" using set_take_subset [of n srt] srt(1) by (simp add: del_def)
  have "evictOldest cfg rs = filter (\<lambda>e. fst e \<notin> fst ` set del) rs"
    using evictOldest_over [OF assms(2,3)] by (simp add: del_def n_def srt_def f_def)
  then have ev: "evictOldest cfg rs = filter (\<lambda>e. e \<notin> set del) rs"
    by (simp only: filter_keys_eq_filter_entries [OF assms(1) sub])
  have e: "e \<in> set (take n srt)"
    using assms(4,5) unfolding ev del_def by simp
  have "e' \<in> set rs \<and> e' \<notin> set (take n srt)"
    using assms(6) unfolding ev del_def by simp
  then have "e' \<in> set srt" "e' \<notin> set (take n srt)" using srt(1) by simp_all
  moreover have "set srt = set (take n srt) \<union> set (drop n srt)"
    by (simp only: set_append [symmetric] append_take_drop_id)
  ultimately have e': "e' \<in> set (drop n srt)" by blast
  have "f e \<le> f e'" by (rule sorted_take_drop [OF srt(2) e e'])
  then show ?thesis by (simp add: f_def)
qed

lemma cleanupRequests_distinct:
  assumes "distinct (map fst rs)"
  shows "distinct (map fst (cleanupRequests cfg now rs))"
  using assms by (simp add: cleanupRequests_def distinct_map_filter)

lemma cleanup_requestStore:
  "requestStore (cleanup cfg now st) = evictOldest cfg (cleanupRequests cfg now (requestStore st))"
  by (simp add: cleanup_def Let_def)

lemma evictOldest_subset: "set (evictOldest cfg rs) \<subseteq> set rs"
  by (auto simp: evictOldest_def foldl_js_delete)

lemma cleanup_distinct:
  assumes "distinct (map fst (requestStore st))"
  shows "distinct (map fst (requestStore (cleanup cfg now st)))"
proof -
  have "distinct (map fst (cleanupRequests cfg now (requestStore st)))"
    by (rule cleanupRequests_distinct [OF assms])
  then have "distinct (map fst (evictOldest cfg (cleanupRequests cfg now (requestStore st))))"
    by (simp add: evictOldest_def foldl_js_delete distinct_map_filter)
  then show ?thesis by (simp add: cleanup_requestStore)
qed

text \<open>
  C3, amended. When, after the idle records have been deleted, the request store (its
  keys distinct, as those of a \<open>Map\<close> are) still holds more entries than a non-negative
  \<open>maxStoreSize\<close>, one sweep
  removes exactly \<open>floor(maxStoreSize / 5)\<close> of them and no more, so the store may still
  exceed \<open>maxStoreSize\<close>; the entries that stay are unchanged, and every entry removed
  under capacity pressure has a \<open>firstRequest\<close> no later than that of every entry that
  stays. The request store after the sweep does not depend on the ban store or on the
  violation store: bans play no part in the choice.
\<close>

theorem capacity_eviction:
  assumes "distinct (map fst (requestStore st))"
    and "0 \<le> maxStoreSize cfg"
    and "maxStoreSize cfg < int (length (cleanupRequests cfg now (requestStore st)))"
  shows "length (requestStore (cleanup cfg now st))
           = length (cleanupRequests cfg now (requestStore st)) - nat (maxStoreSize cfg div 5)
       \<and> set (requestStore (cleanup cfg now st)) \<subseteq> set (cleanupRequests cfg now (requestStore st))
       \<and> (\<forall>e\<in>set (cleanupRequests cfg now (requestStore st)).
            \<forall>e'\<in>set (requestStore (cleanup cfg now st)).
              e \<notin> set (requestStore (cleanup cfg now st))
              \<longrightarrow> firstRequest (snd e) \<le> firstRequest (snd e'))
       \<and> requestStore (cleanup cfg now (st\<lparr> violationStore := vs, banStore := bs \<rparr>))
           = requestStore (cleanup cfg now st)"
proof -
  let ?rs = "cleanupRequests cfg now (requestStore st)"
  have d: "distinct (map fst ?rs)" by (rule cleanupRequests_distinct [OF assms(1)])
  have r: "requestStore (cleanup cfg now st) = evictOldest cfg ?rs" by (rule cleanup_requestStore)
  have "length (evictOldest cfg ?rs) = length ?rs - nat (maxStoreSize cfg div 5)"
    by (rule evictOldest_length [OF d assms(2,3)])
  moreover have "set (evictOldest cfg ?rs) \<subseteq> set ?rs" by (rule evictOldest_subset)
  moreover have "\<forall>e\<in>set ?rs. \<forall>e'\<in>set (evictOldest cfg ?rs).
        e \<notin> set (evictOldest cfg ?rs) \<longrightarrow> firstRequest (snd e) \<le> firstRequest (snd e')"
    using evictOldest_oldest_first [OF d assms(2,3)] by blast
  moreover have "requestStore (cleanup cfg now (st\<lparr> violationStore := vs, banStore := bs \<rparr>))
           = evictOldest cfg ?rs"
    by (simp add: cleanup_requestStore)
  ultimately show ?thesis unfolding r by blast
qed

theorem capacity_eviction_witness:
  "length (requestStore (cleanup capacity5 700 sevenStore)) = 6
   \<and> (''d'', \<lparr> count = 2, firstRequest = 50, requests = [50, 650] \<rparr>)
        \<notin> set (requestStore (cleanup capacity5 700 sevenStore))"
proof -
  have c: "maxStoreSize capacity5 = 5" "windowMs capacity5 = 60000"
    by (simp_all add: capacity5_def defaultConfig_def)
  have f: "cleanupRequests capacity5 700 (requestStore sevenStore) = requestStore sevenStore"
    by (simp add: cleanupRequests_def c sevenStore_def emptyStore_def)
  have d: "distinct (map fst (requestStore sevenStore))"
    by (simp add: sevenStore_def emptyStore_def)
  have l: "length (requestStore sevenStore) = 7"
    by (simp add: sevenStore_def emptyStore_def)
  have h2: "0 \<le> maxStoreSize capacity5" by (simp add: c)
  have h3: "maxStoreSize capacity5
              < int (length (cleanupRequests capacity5 700 (requestStore sevenStore)))"
    by (simp add: f l c)
  note t = capacity_eviction [OF d h2 h3]
  from t have len: "length (requestStore (cleanup capacity5 700 sevenStore)) = 6"
    by (simp add: f l c)
  have "entriesToDelete capacity5 (requestStore sevenStore) = [''d'']"
    by (simp add: entriesToDelete_def js_slice0_def c sevenStore_def emptyStore_def)
  then have "evictOldest capacity5 (requestStore sevenStore)
               = js_delete (requestStore sevenStore) ''d''"
    by (simp add: evictOldest_def l c)
  then have "requestStore (cleanup capacity5 700 sevenStore)
               = js_delete (requestStore sevenStore) ''d''"
    by (simp add: cleanup_requestStore f)
  then have "(''d'', \<lparr> count = 2, firstRequest = 50, requests = [50, 650] \<rparr>)
          \<notin> set (requestStore (cleanup capacity5 700 sevenStore))"
    by (simp add: js_delete_def)
  with len show ?thesis by (rule conjI)
qed

lemma freshKey_inj: "inj freshKey"
  by (rule injI) (simp add: freshKey_def)

lemma freshStore_distinct: "distinct (map fst (requestStore (freshStore n)))"
proof -
  have h: "fst \<circ> freshEntry = freshKey"
    by (rule ext) (simp add: freshEntry_def)
  have "distinct (map freshKey [0..<n])"
    by (simp add: distinct_map inj_on_subset [OF freshKey_inj])
  then show ?thesis by (simp add: freshStore_def emptyStore_def h)
qed

lemma freshStore_all_fresh:
  assumes "int n - 1 \<le> now" and "now \<le> windowMs cfg"
  shows "cleanupRequests cfg now (requestStore (freshStore n)) = requestStore (freshStore n)"
  unfolding cleanupRequests_def
proof (rule filter_True)
  show "\<forall>e\<in>set (requestStore (freshStore n)). \<not> windowMs cfg < now - firstRequest (snd e)"
    using assms by (auto simp: freshStore_def emptyStore_def freshEntry_def)
qed

text \<open>
  C3, as the specification states it, fails. With \<open>maxStoreSize = 100\<close> and 150 keys that
  have just been inserted, one sweep deletes \<open>floor(100 * 0.2) = 20\<close> entries and leaves
  130, more than \<open>maxStoreSize\<close> and more than 80 percent of it. With \<open>maxStoreSize = 5\<close>
  and seven keys, one sweep deletes \<open>floor(5 * 0.2) = 1\<close> entry and leaves six.
\<close>

theorem capacity_eviction_counterexample:
  "maxStoreSize capacity100 < int (length (requestStore (freshStore 150)))
   \<and> length (requestStore (cleanup capacity100 150 (freshStore 150))) = 130
   \<and> maxStoreSize capacity100 < 130
   \<and> maxStoreSize capacity5 < int (length (requestStore sevenStore))
   \<and> length (requestStore (cleanup capacity5 700 sevenStore)) = 6
   \<and> maxStoreSize capacity5 < 6"
proof -
  have c: "maxStoreSize capacity100 = 100" "windowMs capacity100 = 60000"
    by (simp_all add: capacity100_def defaultConfig_def)
  have l: "length (requestStore (freshStore 150)) = 150"
    by (simp add: freshStore_def emptyStore_def)
  have f: "cleanupRequests capacity100 150 (requestStore (freshStore 150))
             = requestStore (freshStore 150)"
    by (rule freshStore_all_fresh) (simp_all add: c)
  have "length (evictOldest capacity100 (requestStore (freshStore 150)))
          = length (requestStore (freshStore 150)) - nat (maxStoreSize capacity100 div 5)"
    by (rule evictOldest_length [OF freshStore_distinct]) (simp_all add: c l)
  then have big: "length (requestStore (cleanup capacity100 150 (freshStore 150))) = 130"
    by (simp add: cleanup_requestStore f c l)
  have c5: "maxStoreSize capacity5 = 5" "windowMs capacity5 = 60000"
    by (simp_all add: capacity5_def defaultConfig_def)
  have l7: "length (requestStore sevenStore) = 7"
    by (simp add: sevenStore_def emptyStore_def)
  have f7: "cleanupRequests capacity5 700 (requestStore sevenStore) = requestStore sevenStore"
    by (simp add: cleanupRequests_def c5 sevenStore_def emptyStore_def)
  have "entriesToDelete capacity5 (requestStore sevenStore) = [''d'']"
    by (simp add: entriesToDelete_def js_slice0_def c5 sevenStore_def emptyStore_def)
  then have "evictOldest capacity5 (requestStore sevenStore)
               = js_delete (requestStore sevenStore) ''d''"
    by (simp add: evictOldest_def l7 c5)
  then have "length (requestStore (cleanup capacity5 700 sevenStore))
               = length (js_delete (requestStore sevenStore) ''d'')"
    by (simp add: cleanup_requestStore f7)
  also have "\<dots> = 6"
    by (simp add: js_delete_def sevenStore_def emptyStore_def)
  finally have small: "length (requestStore (cleanup capacity5 700 sevenStore)) = 6" .
  from big small show ?thesis by (simp add: c l c5 l7)
qed

lemma cleanupBans_keeps:
  assumes "js_get bs key = Some b" and "now \<le> expiresAt b"
  shows "js_get (cleanupBans now bs) key = Some b"
  using assms by (induction bs) (auto simp: js_get_def cleanupBans_def split: if_splits)

lemma cleanup_banStore: "banStore (cleanup cfg now st) = cleanupBans now (banStore st)"
  by (simp add: cleanup_def Let_def)

lemma cleanup_idle_removed:
  assumes "windowMs cfg < now - firstRequest (snd e)"
  shows "e \<notin> set (requestStore (cleanup cfg now st))"
proof
  assume "e \<in> set (requestStore (cleanup cfg now st))"
  then have "e \<in> set (cleanupRequests cfg now (requestStore st))"
    using evictOldest_subset [of cfg "cleanupRequests cfg now (requestStore st)"]
    by (auto simp: cleanup_requestStore)
  with assms show False by (simp add: cleanupRequests_def)
qed

text \<open>
  C4, as the specification states it, fails on the WindowRecord. With \<open>windowMs = 1000\<close>,
  the key \<open>K\<close>, first seen at time 0 and with one violation of time 200 on record, loses
  its WindowRecord to the idle cleanup of a sweep at time 1500, while its violation count
  is 1 before and after the sweep. With \<open>maxStoreSize = 5\<close> and seven keys, the key \<open>d\<close>,
  first seen earliest and with one violation on record, loses its WindowRecord to the
  eviction under capacity pressure.
\<close>

theorem janitor_violations_counterexample:
  "map_option violationCount (js_get (violationStore violatedStore) ''K'') = Some 1
   \<and> js_get (requestStore violatedStore) ''K''
       = Some \<lparr> count = 3, firstRequest = 0, requests = [0, 100, 200] \<rparr>
   \<and> js_get (requestStore (cleanup strictConfig 1500 violatedStore)) ''K'' = None
   \<and> map_option violationCount
        (js_get (violationStore (cleanup strictConfig 1500 violatedStore)) ''K'') = Some 1
   \<and> map_option violationCount (js_get (violationStore sevenStore) ''d'') = Some 1
   \<and> js_get (requestStore sevenStore) ''d''
       = Some \<lparr> count = 2, firstRequest = 50, requests = [50, 650] \<rparr>
   \<and> js_get (requestStore (cleanup capacity5 700 sevenStore)) ''d'' = None
   \<and> map_option violationCount
        (js_get (violationStore (cleanup capacity5 700 sevenStore)) ''d'') = Some 1"
proof -
  have c: "windowMs strictConfig = 1000" "maxStoreSize strictConfig = 10000"
    "maxStoreSize capacity5 = 5" "windowMs capacity5 = 60000"
    by (simp_all add: strictConfig_def slidingConfig_def capacity5_def defaultConfig_def)
  have v: "map_option violationCount (js_get (violationStore violatedStore) ''K'') = Some 1"
    "js_get (requestStore violatedStore) ''K''
       = Some \<lparr> count = 3, firstRequest = 0, requests = [0, 100, 200] \<rparr>"
    by (simp_all add: violatedStore_def js_get_simps)
  have r1: "js_get (requestStore (cleanup strictConfig 1500 violatedStore)) ''K'' = None"
    by (simp add: cleanup_requestStore cleanupRequests_def evictOldest_def c violatedStore_def
          js_get_simps)
  have v1: "map_option violationCount
        (js_get (violationStore (cleanup strictConfig 1500 violatedStore)) ''K'') = Some 1"
    by (simp add: cleanup_violationStore c violatedStore_def js_get_simps)
  have s: "map_option violationCount (js_get (violationStore sevenStore) ''d'') = Some 1"
    "js_get (requestStore sevenStore) ''d''
       = Some \<lparr> count = 2, firstRequest = 50, requests = [50, 650] \<rparr>"
    by (simp_all add: sevenStore_def emptyStore_def js_get_simps)
  have f: "cleanupRequests capacity5 700 (requestStore sevenStore) = requestStore sevenStore"
    by (simp add: cleanupRequests_def c sevenStore_def emptyStore_def)
  have "entriesToDelete capacity5 (requestStore sevenStore) = [''d'']"
    by (simp add: entriesToDelete_def js_slice0_def c sevenStore_def emptyStore_def)
  moreover have "length (requestStore sevenStore) = 7"
    by (simp add: sevenStore_def emptyStore_def)
  ultimately have "evictOldest capacity5 (requestStore sevenStore)
               = js_delete (requestStore sevenStore) ''d''"
    by (simp add: evictOldest_def c)
  then have r2: "js_get (requestStore (cleanup capacity5 700 sevenStore)) ''d'' = None"
    by (simp add: cleanup_requestStore f js_get_js_delete)
  have v2: "map_option violationCount
        (js_get (violationStore (cleanup capacity5 700 sevenStore)) ''d'') = Some 1"
    by (simp add: cleanup_violationStore c sevenStore_def emptyStore_def js_get_simps)
  from v r1 v1 s r2 v2 show ?thesis by blast
qed

text \<open>
  C4, amended. A sweep of the Janitor at time \<open>now\<close> never deletes a BanRecord with
  \<open>now \<le> expiresAt\<close>. The WindowRecords that a sweep keeps do not depend on the violation
  store or on the ban store: a record with \<open>now - firstRequest > windowMs\<close> is deleted
  whatever the violation count of its key.
\<close>

theorem janitor_keeps_active_bans:
  "(js_get (banStore st) key = Some b \<and> now \<le> expiresAt b
      \<longrightarrow> js_get (banStore (cleanup cfg now st)) key = Some b)
   \<and> requestStore (cleanup cfg now (st\<lparr> violationStore := vs, banStore := bs \<rparr>))
       = requestStore (cleanup cfg now st)
   \<and> (windowMs cfg < now - firstRequest (snd e)
      \<longrightarrow> e \<notin> set (requestStore (cleanup cfg now st)))"
proof (intro conjI impI)
  assume "js_get (banStore st) key = Some b \<and> now \<le> expiresAt b"
  then show "js_get (banStore (cleanup cfg now st)) key = Some b"
    by (simp add: cleanup_banStore cleanupBans_keeps)
next
  show "requestStore (cleanup cfg now (st\<lparr> violationStore := vs, banStore := bs \<rparr>))
       = requestStore (cleanup cfg now st)"
    by (simp add: cleanup_requestStore)
next
  assume "windowMs cfg < now - firstRequest (snd e)"
  then show "e \<notin> set (requestStore (cleanup cfg now st))"
    by (rule cleanup_idle_removed)
qed

theorem janitor_keeps_active_bans_witness:
  "js_get (banStore (cleanup strictConfig 1500 violatedStore)) ''K''
     = Some \<lparr> timestamp = 200, violations = 1, expiresAt = 60200 \<rparr>
   \<and> (''K'', \<lparr> count = 3, firstRequest = 0, requests = [0, 100, 200] \<rparr>)
        \<notin> set (requestStore (cleanup strictConfig 1500 violatedStore))"
proof -
  let ?b = "\<lparr> timestamp = 200, violations = 1, expiresAt = 60200 \<rparr>"
  let ?e = "(''K'', \<lparr> count = 3, firstRequest = 0, requests = [0, 100, 200] \<rparr>)"
  have b: "js_get (banStore violatedStore) ''K'' = Some ?b \<and> 1500 \<le> expiresAt ?b"
    by (simp add: violatedStore_def js_get_simps)
  have i: "windowMs strictConfig < 1500 - firstRequest (snd ?e)"
    by (simp add: strictConfig_def slidingConfig_def defaultConfig_def)
  note t = janitor_keeps_active_bans [of violatedStore "''K''" ?b 1500 strictConfig _ _ ?e]
  from t [THEN conjunct1] b
  have "js_get (banStore (cleanup strictConfig 1500 violatedStore)) ''K'' = Some ?b"
    by (rule mp)
  moreover from t [THEN conjunct2, THEN conjunct2] i
  have "?e \<notin> set (requestStore (cleanup strictConfig 1500 violatedStore))"
    by (rule mp)
  ultimately show ?thesis by (rule conjI)
qed

section \<open>The connection cap per address\<close>

lemma checkRateLimit_count:
  "fst (checkRateLimit wcfg addr now st) =
     (maxConnectionsPerIP (rateLimiting wcfg)
        \<le> (case js_get (rateLimiters st) addr of None \<Rightarrow> 0 | Some lim \<Rightarrow> limiterCount lim))
   \<and> map_option limiterCount (js_get (rateLimiters (snd (checkRateLimit wcfg addr now st))) addr)
       = Some (case js_get (rateLimiters st) addr of None \<Rightarrow> 0 | Some lim \<Rightarrow> limiterCount lim)"
  by (simp add: checkRateLimit_def Let_def js_get_js_set split: option.splits)

lemma onConnection_limiter_count:
  assumes "ws_enabled (rateLimiting wcfg)"
    and "(case js_get (rateLimiters st) addr of None \<Rightarrow> 0 | Some lim \<Rightarrow> limiterCount lim) = 0"
    and "0 < maxConnectionsPerIP (rateLimiting wcfg)"
    and "activeConnections st < maxConnections wcfg"
    and "authEnabled wcfg \<longrightarrow> authOk"
  shows "fst (onConnection wcfg cid addr authOk now t1 t2 st) = Accepted
       \<and> map_option limiterCount
           (js_get (rateLimiters (snd (onConnection wcfg cid addr authOk now t1 t2 st))) addr)
           = Some 0"
  using assms checkRateLimit_count [of wcfg addr now st]
  by (auto simp: onConnection_def Let_def setupConnection_def)

text \<open>
  C9 asks that an address admitted \<open>maxConnectionsPerIP\<close> times within the window, with no
  message sent, be rejected at its next connection. The code does not do so: the count
  that \<open>checkRateLimit\<close> compares with \<open>maxConnectionsPerIP\<close> is incremented by
  \<open>handleMessage\<close> only, so it counts messages, and an address that sends none is admitted
  every time. With a cap of two, the third connection of an address is accepted, three
  connections are active and the count of its limiter is still 0.
\<close>

theorem ws_connection_cap_not_enforced:
  "fst afterFirst = Accepted \<and> fst afterSecond = Accepted \<and> fst afterThird = Accepted
   \<and> activeConnections (snd afterThird) = 3
   \<and> maxConnectionsPerIP (rateLimiting wsTwoPerIP) = 2
   \<and> map_option limiterCount (js_get (rateLimiters (snd afterThird)) ''10.0.0.7'') = Some 0"
proof -
  have c: "ws_enabled (rateLimiting wsTwoPerIP)" "maxConnectionsPerIP (rateLimiting wsTwoPerIP) = 2"
    "maxConnections wsTwoPerIP = 1000" "\<not> authEnabled wsTwoPerIP"
    "ws_windowMs (rateLimiting wsTwoPerIP) = 60000"
    by (simp_all add: wsTwoPerIP_def)
  have 1: "afterFirst =
    (Accepted, \<lparr> connections = [(''c1'', \<lparr> conn_ip = ''10.0.0.7'', connectTime = 0, lastPing = 0,
                                         messageCount = 0, bytesReceived = 0, bytesSent = 0 \<rparr>)],
                 rateLimiters = [(''10.0.0.7'', \<lparr> limiterCount = 0, resetTime = 60000 \<rparr>)],
                 totalConnections = 1, activeConnections = 1, messagesReceived = 0,
                 bandwidthIn = 0, errors = 0 \<rparr>)"
    by (simp add: afterFirst_def onConnection_def checkRateLimit_def setupConnection_def
          wsInitial_def c js_get_simps Let_def)
  have 2: "fst afterSecond = Accepted \<and> activeConnections (snd afterSecond) = 2
           \<and> rateLimiters (snd afterSecond) = [(''10.0.0.7'', \<lparr> limiterCount = 0, resetTime = 60000 \<rparr>)]"
    by (simp add: afterSecond_def 1 onConnection_def checkRateLimit_def setupConnection_def
          c js_get_simps Let_def)
  have 3: "fst afterThird = Accepted \<and> activeConnections (snd afterThird) = 3
           \<and> rateLimiters (snd afterThird) = [(''10.0.0.7'', \<lparr> limiterCount = 0, resetTime = 60000 \<rparr>)]"
    using 2 by (simp add: afterThird_def onConnection_def checkRateLimit_def setupConnection_def
          c js_get_simps Let_def)
  have 4: "fst afterFirst = Accepted" by (simp add: 1)
  have 5: "map_option limiterCount (js_get (rateLimiters (snd afterThird)) ''10.0.0.7'') = Some 0"
    by (simp add: 3 js_get_simps)
  from 2 3 4 5 c(2) show ?thesis by blast
qed

end
